theory Spec2Isabelle
  imports Complex_Main
begin

section \<open>JavaScript values\<close>

text \<open>
  The payloads that travel through the backend are JSON values, extended with
  JavaScript's \<open>undefined\<close>. Objects are association lists in source order, with one
  entry for each key. Numbers are real numbers (JSON has neither \<open>NaN\<close> nor infinities).
\<close>

datatype jv =
    JUndefined
  | JNull
  | JBool bool
  | JNum real
  | JStr string
  | JArr "jv list"
  | JObj "(string \<times> jv) list"

text \<open>Truthiness, as used by \<open>if (x)\<close>, \<open>!x\<close>, \<open>x && y\<close> and \<open>x || y\<close>.\<close>

fun truthy :: "jv \<Rightarrow> bool" where
  "truthy JUndefined = False"
| "truthy JNull = False"
| "truthy (JBool b) = b"
| "truthy (JNum n) = (n \<noteq> 0)"
| "truthy (JStr s) = (s \<noteq> [])"
| "truthy (JArr xs) = True"
| "truthy (JObj kvs) = True"

text \<open>
  Property access \<open>v.name\<close> on a value that is neither \<open>null\<close> nor \<open>undefined\<close>
  (every access in the modelled code is guarded so). \<open>length\<close> is the only
  built-in property the code reads.
\<close>

fun get_prop :: "jv \<Rightarrow> string \<Rightarrow> jv" where
  "get_prop (JObj kvs) name = (case map_of kvs name of Some v \<Rightarrow> v | None \<Rightarrow> JUndefined)"
| "get_prop (JArr xs) name = (if name = ''length'' then JNum (real (length xs)) else JUndefined)"
| "get_prop (JStr s) name = (if name = ''length'' then JNum (real (length s)) else JUndefined)"
| "get_prop v name = JUndefined"

text \<open>\<open>v[0]\<close> on a value that is neither \<open>null\<close> nor \<open>undefined\<close>.\<close>

fun index0 :: "jv \<Rightarrow> jv" where
  "index0 (JArr xs) = (case xs of [] \<Rightarrow> JUndefined | x # _ \<Rightarrow> x)"
| "index0 (JStr s) = (case s of [] \<Rightarrow> JUndefined | c # _ \<Rightarrow> JStr [c])"
| "index0 (JObj kvs) = (case map_of kvs ''0'' of Some v \<Rightarrow> v | None \<Rightarrow> JUndefined)"
| "index0 v = JUndefined"

definition nullish :: "jv \<Rightarrow> bool" where
  "nullish v = (v = JUndefined \<or> v = JNull)"

text \<open>Optional chaining: \<open>v?.name\<close> and \<open>v?.[0]\<close>.\<close>

definition opt_prop :: "jv \<Rightarrow> string \<Rightarrow> jv" where
  "opt_prop v name = (if nullish v then JUndefined else get_prop v name)"

definition opt_index0 :: "jv \<Rightarrow> jv" where
  "opt_index0 v = (if nullish v then JUndefined else index0 v)"

text \<open>
  What can be thrown: the \<open>Error\<close> that \<open>fetchWithRetry\<close> makes of a response status, a
  rejected \<open>fetch\<close>, a rejected \<open>response.json()\<close>, a rejected store operation, and the
  \<open>TypeError\<close> of reading a property of \<open>null\<close> or iterating what is not iterable.
\<close>

datatype error =
    UpstreamApiError nat
  | FetchRejected
  | JsonRejected
  | StoreError
  | TypeError

text \<open>
  What the JavaScript host and the document store contribute, taken as given:
  \<open>date_getTime v\<close> is \<open>new Date(v).getTime()\<close> in milliseconds, \<open>None\<close> for \<open>NaN\<close>;
  \<open>string_gt_zero s\<close> is the comparison \<open>s > 0\<close> for a string (it converts the string to
  a number first); \<open>store_accepts docId d\<close> says whether the store completes a \<open>set\<close> of
  that document (a refused \<open>set\<close> rejects and leaves the document as it was), and
  \<open>store_reads docId\<close> whether it completes a \<open>get\<close>;
  \<open>serverTimestamp\<close> is the time the store stamps on a write; \<open>number_text x\<close> is the
  text JavaScript gives a number that is not a safe integer (a fraction, or a magnitude
  above \<open>2^53\<close>: shortest digits, exponent notation from \<open>1e21\<close> on).
\<close>

record host =
  date_getTime :: "jv \<Rightarrow> int option"
  string_gt_zero :: "string \<Rightarrow> bool"
  store_accepts :: "string \<Rightarrow> jv \<Rightarrow> bool"
  store_reads :: "string \<Rightarrow> bool"
  serverTimestamp :: int
  number_text :: "real \<Rightarrow> string"

text \<open>
  String conversion, as a template literal \<open>`${v}`\<close> performs it. A safe integer is
  printed in decimal; the text of any other number is the host's.
\<close>

function show_nat :: "nat \<Rightarrow> string" where
  "show_nat n =
     (if n < 10 then [''0123456789'' ! n]
      else show_nat (n div 10) @ [''0123456789'' ! (n mod 10)])"
  by pat_completeness auto
termination
  by (relation "measure (\<lambda>n. n)") auto

definition show_int :: "int \<Rightarrow> string" where
  "show_int i = (if i < 0 then CHR ''-'' # show_nat (nat (- i)) else show_nat (nat i))"

definition number_string :: "host \<Rightarrow> real \<Rightarrow> string" where
  "number_string h x =
     (if x \<in> \<int> \<and> \<bar>x\<bar> \<le> 9007199254740992 then show_int \<lfloor>x\<rfloor> else number_text h x)"

fun join_comma :: "string list \<Rightarrow> string" where
  "join_comma [] = []"
| "join_comma [s] = s"
| "join_comma (s # t # ss) = s @ CHR '','' # join_comma (t # ss)"

fun to_string :: "host \<Rightarrow> jv \<Rightarrow> string" where
  "to_string h JUndefined = ''undefined''"
| "to_string h JNull = ''null''"
| "to_string h (JBool b) = (if b then ''true'' else ''false'')"
| "to_string h (JNum x) = number_string h x"
| "to_string h (JStr s) = s"
| "to_string h (JArr xs) =
     join_comma (map (\<lambda>x. if x = JUndefined \<or> x = JNull then [] else to_string h x) xs)"
| "to_string h (JObj kvs) = ''[object Object]''"

text \<open>The comparison \<open>v > 0\<close>.\<close>

fun gt_zero :: "host \<Rightarrow> jv \<Rightarrow> bool" where
  "gt_zero h JUndefined = False"
| "gt_zero h JNull = False"
| "gt_zero h (JBool b) = b"
| "gt_zero h (JNum n) = (0 < n)"
| "gt_zero h (JStr s) = string_gt_zero h s"
| "gt_zero h (JArr xs) = string_gt_zero h (to_string h (JArr xs))"
| "gt_zero h (JObj kvs) = False"

section \<open>Upstream client: \<open>fetchWithRetry\<close>\<close>

definition MAX_RETRIES :: nat where
  "MAX_RETRIES = 3"

definition RETRY_BACKOFF_MS :: "nat list" where
  "RETRY_BACKOFF_MS = [1000, 3000, 8000]"

text \<open>
  \<open>RETRY_BACKOFF_MS[attempt] || dflt\<close>: an index past the end reads \<open>undefined\<close>,
  and \<open>||\<close> replaces a falsy left operand by the default.
\<close>

definition backoff_or :: "nat \<Rightarrow> nat \<Rightarrow> nat" where
  "backoff_or attempt dflt =
     (if attempt < length RETRY_BACKOFF_MS \<and> RETRY_BACKOFF_MS ! attempt \<noteq> 0
      then RETRY_BACKOFF_MS ! attempt else dflt)"

text \<open>
  What \<open>fetch(url)\<close> does on one attempt: the promise rejects (transport failure), or it
  resolves to a response with a status and a body; \<open>json\<close> is \<open>None\<close> when
  \<open>response.json()\<close> rejects.
\<close>

record response =
  status :: nat
  json :: "jv option"

definition ok :: "response \<Rightarrow> bool" where
  "ok r = (200 \<le> status r \<and> status r \<le> 299)"

datatype fetched = Rejects | Resolves response

datatype outcome = Returns jv | Throws error

text \<open>The observable steps of a call, in order.\<close>

datatype event = Acquire | Fetch | Sleep nat

text \<open>One pass through the loop body either ends the call or sleeps and goes round again.\<close>

datatype pass = Done outcome | Again nat

text \<open>The \<open>catch\<close> block: rethrow on the last attempt, otherwise back off and retry.\<close>

definition on_catch :: "error \<Rightarrow> nat \<Rightarrow> pass" where
  "on_catch e attempt =
     (if attempt = MAX_RETRIES then Done (Throws e) else Again (backoff_or attempt 2000))"

text \<open>
  The \<open>try\<close> block. The \<open>throw new Error(...)\<close> for a status that is neither 2xx nor
  429 is inside the \<open>try\<close>, so the \<open>catch\<close> block receives it.
\<close>

definition try_fetch :: "fetched \<Rightarrow> nat \<Rightarrow> pass" where
  "try_fetch f attempt =
     (case f of
        Rejects \<Rightarrow> on_catch FetchRejected attempt
      | Resolves r \<Rightarrow>
          if ok r then
            (case json r of
               Some v \<Rightarrow> Done (Returns v)
             | None \<Rightarrow> on_catch JsonRejected attempt)
          else if status r = 429 then Again (backoff_or attempt 8000)
          else on_catch (UpstreamApiError (status r)) attempt)"

text \<open>
  \<open>for (let attempt = 0; attempt <= MAX_RETRIES; attempt++)\<close>, from a given attempt on.
  \<open>net i\<close> is what the network answers to attempt \<open>i\<close>. Every \<open>limiter.acquire()\<close> is taken
  to be granted. A loop that runs out returns \<open>undefined\<close>, as a JavaScript function does.
\<close>

function fetchWithRetry_loop :: "(nat \<Rightarrow> fetched) \<Rightarrow> nat \<Rightarrow> outcome \<times> event list" where
  "fetchWithRetry_loop net attempt =
     (if attempt \<le> MAX_RETRIES then
        (case try_fetch (net attempt) attempt of
           Done out \<Rightarrow> (out, [Acquire, Fetch])
         | Again ms \<Rightarrow>
             (case fetchWithRetry_loop net (Suc attempt) of
                (out, tr) \<Rightarrow> (out, Acquire # Fetch # Sleep ms # tr)))
      else (Returns JUndefined, []))"
  by pat_completeness auto
termination
  by (relation "measure (\<lambda>(net, attempt). Suc MAX_RETRIES - attempt)") auto

definition fetchWithRetry :: "(nat \<Rightarrow> fetched) \<Rightarrow> outcome \<times> event list" where
  "fetchWithRetry net = fetchWithRetry_loop net 0"

text \<open>Concrete networks.\<close>

definition always_429 :: "nat \<Rightarrow> fetched" where
  "always_429 i = Resolves \<lparr>status = 429, json = None\<rparr>"

definition once_500_then_200 :: "nat \<Rightarrow> fetched" where
  "once_500_then_200 i =
     (if i = 0 then Resolves \<lparr>status = 500, json = None\<rparr>
      else Resolves \<lparr>status = 200, json = Some (JArr [])\<rparr>)"

section \<open>Configuration\<close>

text \<open>\<open>SESSION_GRACE_PERIOD\<close>, in milliseconds.\<close>

definition beforeStart :: int where
  "beforeStart = 30 * 60 * 1000"

definition afterEnd :: int where
  "afterEnd = 60 * 60 * 1000"

section \<open>Scheduler: live window\<close>

text \<open>
  \<open>now\<close> is the reading of \<open>Date.now()\<close>. A comparison with \<open>NaN\<close> is false, so a
  date that does not parse puts the session outside the window.
\<close>

definition isSessionInLiveWindow :: "host \<Rightarrow> int \<Rightarrow> jv \<Rightarrow> bool" where
  "isSessionInLiveWindow h now session =
     (if \<not> truthy session \<or> \<not> truthy (get_prop session ''date_start'')
         \<or> \<not> truthy (get_prop session ''date_end'')
      then False
      else
        (case (date_getTime h (get_prop session ''date_start''),
               date_getTime h (get_prop session ''date_end'')) of
           (Some start, Some end) \<Rightarrow>
             (let windowStart = start - beforeStart;
                  windowEnd = end + afterEnd
              in now \<ge> windowStart \<and> now \<le> windowEnd)
         | _ \<Rightarrow> False))"

section \<open>Durable cache store\<close>

record doc =
  data :: jv
  updatedAt :: int

type_synonym store = "string \<rightharpoonup> doc"

text \<open>\<open>cacheWrite\<close>: one \<open>set\<close> of the whole document; it resolves or rejects.\<close>

definition cacheWrite :: "host \<Rightarrow> string \<Rightarrow> jv \<Rightarrow> store \<Rightarrow> (error + unit) \<times> store" where
  "cacheWrite h docId d st =
     (if store_accepts h docId d
      then (Inr (), st(docId \<mapsto> \<lparr>data = d, updatedAt = serverTimestamp h\<rparr>))
      else (Inl StoreError, st))"

text \<open>
  \<open>await Promise.all(writes)\<close>: every write of the list was started when it was pushed, so
  each accepted one lands; the \<open>await\<close> rejects with the first rejection.
\<close>

fun write_all :: "host \<Rightarrow> (string \<times> jv) list \<Rightarrow> store \<Rightarrow> (error + unit) \<times> store" where
  "write_all h [] st = (Inr (), st)"
| "write_all h ((docId, d) # ws) st =
     (case cacheWrite h docId d st of
        (r, st1) \<Rightarrow>
          (case write_all h ws st1 of
             (rs, st2) \<Rightarrow> ((case r of Inl e \<Rightarrow> Inl e | Inr u \<Rightarrow> rs), st2)))"

section \<open>Scheduler jobs\<close>

text \<open>
  A job body runs inside \<open>try { ... } catch (error) { console.error(...) }\<close>: whatever the
  body does, the handler completes normally.
\<close>

datatype completion = Normal | Raised error

definition catch_log :: "(error + unit) \<times> store \<Rightarrow> completion \<times> store" where
  "catch_log r = (case r of (Inl e, st) \<Rightarrow> (Normal, st) | (Inr u, st) \<Rightarrow> (Normal, st))"

text \<open>\<open>sessions && sessions.length > 0 ? sessions[0] : null\<close>\<close>

definition latest_of :: "host \<Rightarrow> jv \<Rightarrow> jv" where
  "latest_of h sessions =
     (if truthy sessions \<and> gt_zero h (get_prop sessions ''length'')
      then index0 sessions else JNull)"

text \<open>\<open>promise.catch((e) => { console.warn(...); return null; })\<close>\<close>

definition or_null :: "error + jv \<Rightarrow> jv" where
  "or_null r = (case r of Inl e \<Rightarrow> JNull | Inr v \<Rightarrow> v)"

text \<open>\<open>if (v) writes.push(cacheWrite(docId, v))\<close>\<close>

definition push_if :: "jv \<Rightarrow> string \<Rightarrow> (string \<times> jv) list" where
  "push_if v docId = (if truthy v then [(docId, v)] else [])"

subsection \<open>\<open>refreshLiveData\<close>\<close>

text \<open>What the upstream module answers to the calls of one run.\<close>

record live_upstream =
  up_sessions :: "error + jv"
  up_positions :: "error + jv"
  up_intervals :: "error + jv"
  up_stints :: "error + jv"
  up_weather :: "error + jv"
  up_raceControl :: "error + jv"
  up_drivers :: "error + jv"
  up_laps :: "error + jv"

definition live_writes :: "host \<Rightarrow> live_upstream \<Rightarrow> jv \<Rightarrow> (string \<times> jv) list" where
  "live_writes h up sessionKey =
     (let positions = or_null (up_positions up);
          intervals = or_null (up_intervals up);
          stints = or_null (up_stints up);
          weather = or_null (up_weather up);
          raceControl = or_null (up_raceControl up);
          drivers = or_null (up_drivers up);
          laps = or_null (up_laps up)
      in push_if positions (''positions_'' @ to_string h sessionKey)
       @ push_if intervals (''intervals_'' @ to_string h sessionKey)
       @ push_if stints (''stints_'' @ to_string h sessionKey)
       @ push_if weather (''weather_'' @ to_string h sessionKey)
       @ push_if raceControl (''race_control_'' @ to_string h sessionKey)
       @ (if truthy drivers
          then [(''drivers_'' @ to_string h sessionKey, drivers), (''drivers_latest'', drivers)]
          else [])
       @ push_if laps (''laps_'' @ to_string h sessionKey @ ''_all''))"

definition refreshLiveData_body ::
  "host \<Rightarrow> int \<Rightarrow> live_upstream \<Rightarrow> store \<Rightarrow> (error + unit) \<times> store" where
  "refreshLiveData_body h now up st =
     (case up_sessions up of
        Inl e \<Rightarrow> (Inl e, st)
      | Inr sessions \<Rightarrow>
          (let latestSession = latest_of h sessions in
           case cacheWrite h ''latest_session'' latestSession st of
             (Inl e, st1) \<Rightarrow> (Inl e, st1)
           | (Inr u, st1) \<Rightarrow>
               if \<not> truthy latestSession then (Inr (), st1)
               else if \<not> isSessionInLiveWindow h now latestSession then (Inr (), st1)
               else write_all h (live_writes h up (get_prop latestSession ''session_key'')) st1))"

definition refreshLiveData :: "host \<Rightarrow> int \<Rightarrow> live_upstream \<Rightarrow> store \<Rightarrow> completion \<times> store" where
  "refreshLiveData h now up st = catch_log (refreshLiveData_body h now up st)"

subsection \<open>\<open>refreshBaseData\<close>\<close>

record base_upstream =
  base_sessions :: "error + jv"
  base_drivers :: "error + jv"

text \<open>The inner \<open>try\<close>: two writes one after the other; its \<open>catch\<close> only warns.\<close>

definition base_drivers_step :: "host \<Rightarrow> error + jv \<Rightarrow> jv \<Rightarrow> store \<Rightarrow> store" where
  "base_drivers_step h r sessionKey st =
     (case r of
        Inl e \<Rightarrow> st
      | Inr drivers \<Rightarrow>
          if truthy drivers then
            (case cacheWrite h (''drivers_'' @ to_string h sessionKey) drivers st of
               (Inl e, st1) \<Rightarrow> st1
             | (Inr u, st1) \<Rightarrow> snd (cacheWrite h ''drivers_latest'' drivers st1))
          else st)"

definition refreshBaseData_body ::
  "host \<Rightarrow> base_upstream \<Rightarrow> store \<Rightarrow> (error + unit) \<times> store" where
  "refreshBaseData_body h up st =
     (case base_sessions up of
        Inl e \<Rightarrow> (Inl e, st)
      | Inr sessions \<Rightarrow>
          (let latestSession = latest_of h sessions in
           case cacheWrite h ''latest_session'' latestSession st of
             (Inl e, st1) \<Rightarrow> (Inl e, st1)
           | (Inr u, st1) \<Rightarrow>
               if \<not> truthy latestSession then (Inr (), st1)
               else (Inr (), base_drivers_step h (base_drivers up)
                               (get_prop latestSession ''session_key'') st1)))"

definition refreshBaseData :: "host \<Rightarrow> base_upstream \<Rightarrow> store \<Rightarrow> completion \<times> store" where
  "refreshBaseData h up st = catch_log (refreshBaseData_body h up st)"

subsection \<open>\<open>refreshStandings\<close>\<close>

text \<open>
  \<open>data?.MRData?.StandingsTable?.StandingsLists?.[0]?.DriverStandings || []\<close>, on what the
  Jolpica call returned.
\<close>

definition standings_of :: "string \<Rightarrow> jv \<Rightarrow> jv" where
  "standings_of member d =
     (let v = opt_prop (opt_index0 (opt_prop (opt_prop (opt_prop d ''MRData'')
                  ''StandingsTable'') ''StandingsLists'')) member
      in if truthy v then v else JArr [])"

definition fetchDriverStandings :: "error + jv \<Rightarrow> error + jv" where
  "fetchDriverStandings r =
     (case r of Inl e \<Rightarrow> Inl e | Inr d \<Rightarrow> Inr (standings_of ''DriverStandings'' d))"

definition fetchConstructorStandings :: "error + jv \<Rightarrow> error + jv" where
  "fetchConstructorStandings r =
     (case r of Inl e \<Rightarrow> Inl e | Inr d \<Rightarrow> Inr (standings_of ''ConstructorStandings'' d))"

record standings_upstream =
  jolpica_drivers :: "error + jv"
  jolpica_constructors :: "error + jv"

definition refreshStandings_body ::
  "host \<Rightarrow> int \<Rightarrow> standings_upstream \<Rightarrow> store \<Rightarrow> (error + unit) \<times> store" where
  "refreshStandings_body h year up st =
     (case fetchDriverStandings (jolpica_drivers up) of
        Inl e \<Rightarrow> (Inl e, st)
      | Inr driverStandings \<Rightarrow>
          (case fetchConstructorStandings (jolpica_constructors up) of
             Inl e \<Rightarrow> (Inl e, st)
           | Inr constructorStandings \<Rightarrow>
               write_all h
                 [(''driver_standings_'' @ number_string h (of_int year), driverStandings),
                  (''constructor_standings_'' @ number_string h (of_int year), constructorStandings)] st))"

definition refreshStandings ::
  "host \<Rightarrow> int \<Rightarrow> standings_upstream \<Rightarrow> store \<Rightarrow> completion \<times> store" where
  "refreshStandings h year up st = catch_log (refreshStandings_body h year up st)"

subsection \<open>\<open>refreshMeetings\<close>\<close>

text \<open>
  \<open>up_meeting_sessions i\<close> answers the \<open>fetchSessions\<close> call made for the \<open>i\<close>-th meeting of
  the loop.
\<close>

record meetings_upstream =
  up_meetings :: "error + jv"
  up_meeting_sessions :: "nat \<Rightarrow> error + jv"

text \<open>What \<open>for (const meeting of data)\<close> walks through; \<open>None\<close> when \<open>data\<close> is not iterable.\<close>

fun iterate :: "jv \<Rightarrow> jv list option" where
  "iterate (JArr xs) = Some xs"
| "iterate (JStr s) = Some (map (\<lambda>c. JStr [c]) s)"
| "iterate v = None"

text \<open>
  The loop body with its own \<open>try\<close>/\<open>catch\<close>. A failed fetch and a refused write throw
  inside the \<open>try\<close> and are only warned about. Reading \<open>meeting.meeting_key\<close> of \<open>null\<close> or
  \<open>undefined\<close> throws inside the \<open>try\<close> before anything is fetched, and throws again inside
  the \<open>catch\<close> block, whose warning reads it too: that second error leaves the loop.
\<close>

definition cache_meeting ::
  "host \<Rightarrow> error + jv \<Rightarrow> jv \<Rightarrow> store \<Rightarrow> (error + unit) \<times> store" where
  "cache_meeting h r meeting st =
     (if nullish meeting then (Inl TypeError, st)
      else
        (case r of
           Inl e \<Rightarrow> (Inr (), st)
         | Inr sessions \<Rightarrow>
             (Inr (),
              snd (cacheWrite h (''sessions_'' @ to_string h (get_prop meeting ''meeting_key''))
                     sessions st))))"

fun cache_meetings ::
  "host \<Rightarrow> (nat \<Rightarrow> error + jv) \<Rightarrow> nat \<Rightarrow> jv list \<Rightarrow> store \<Rightarrow> (error + unit) \<times> store" where
  "cache_meetings h ups i [] st = (Inr (), st)"
| "cache_meetings h ups i (meeting # ms) st =
     (case cache_meeting h (ups i) meeting st of
        (Inl e, st1) \<Rightarrow> (Inl e, st1)
      | (Inr u, st1) \<Rightarrow> cache_meetings h ups (Suc i) ms st1)"

definition refreshMeetings_body ::
  "host \<Rightarrow> int \<Rightarrow> meetings_upstream \<Rightarrow> store \<Rightarrow> (error + unit) \<times> store" where
  "refreshMeetings_body h year up st =
     (case up_meetings up of
        Inl e \<Rightarrow> (Inl e, st)
      | Inr d \<Rightarrow>
          (case cacheWrite h (''meetings_'' @ number_string h (of_int year)) d st of
             (Inl e, st1) \<Rightarrow> (Inl e, st1)
           | (Inr u, st1) \<Rightarrow>
               if nullish d then (Inl TypeError, st1)
               else
                 (case iterate d of
                    None \<Rightarrow> (Inl TypeError, st1)
                  | Some ms \<Rightarrow> cache_meetings h (up_meeting_sessions up) 0 ms st1)))"

definition refreshMeetings ::
  "host \<Rightarrow> int \<Rightarrow> meetings_upstream \<Rightarrow> store \<Rightarrow> completion \<times> store" where
  "refreshMeetings h year up st = catch_log (refreshMeetings_body h year up st)"

section \<open>Dual-window rate limiter\<close>

text \<open>
  The fields of \<open>DualRateLimiter\<close>. Waiters in the queue are the \<open>resolve\<close> callbacks of
  pending \<open>acquire()\<close> promises, named by numbers. Two fields keep the books of the model:
  \<open>timer\<close> holds the delay of the pending \<open>setTimeout\<close> while the worker loop sleeps, and
  \<open>granted\<close> lists every \<open>resolve()\<close> call so far with the clock reading at which it was made.
  Times are integer milliseconds, as \<open>Date.now()\<close> returns them.
\<close>

record limiter =
  perSecond :: int
  perMinute :: int
  secondTokens :: int
  minuteTokens :: int
  lastSecondRefill :: int
  lastMinuteRefill :: int
  queue :: "nat list"
  processing :: bool
  timer :: "nat option"
  granted :: "(nat \<times> int) list"

definition new_limiter :: "int \<Rightarrow> int \<Rightarrow> int \<Rightarrow> limiter" where
  "new_limiter perSec perMin now =
     \<lparr>perSecond = perSec, perMinute = perMin,
      secondTokens = perSec, minuteTokens = perMin,
      lastSecondRefill = now, lastMinuteRefill = now,
      queue = [], processing = False, timer = None, granted = []\<rparr>"

text \<open>
  \<open>_refill\<close>. On whole milliseconds \<open>(now - last) / 1000 >= 1\<close> is \<open>now - last \<ge> 1000\<close>, and
  \<open>Math.floor((now - last) / 1000)\<close> is the integer quotient.
\<close>

definition refill :: "int \<Rightarrow> limiter \<Rightarrow> limiter" where
  "refill now l =
     (let l1 =
        (if now - lastSecondRefill l \<ge> 1000 then
           l\<lparr>secondTokens :=
                min (perSecond l)
                    (secondTokens l + ((now - lastSecondRefill l) div 1000) * perSecond l),
             lastSecondRefill := now\<rparr>
         else l)
      in
        (if now - lastMinuteRefill l1 \<ge> 60000 then
           l1\<lparr>minuteTokens :=
                 min (perMinute l1)
                     (minuteTokens l1 + ((now - lastMinuteRefill l1) div 60000) * perMinute l1),
               lastMinuteRefill := now\<rparr>
         else l1))"

text \<open>
  The \<open>while\<close> loop of \<open>_processQueue\<close>, from its test to the point where it either sleeps
  (\<open>await\<close> of the timer) or finds the queue empty and clears \<open>processing\<close>. \<open>now\<close> is the
  clock reading of the task that runs it.
\<close>

function processQueue_loop :: "int \<Rightarrow> limiter \<Rightarrow> limiter" where
  "processQueue_loop now l =
     (if queue l \<noteq> [] then
        (let l1 = refill now l in
         if secondTokens l1 > 0 \<and> minuteTokens l1 > 0 then
           processQueue_loop now
             (l1\<lparr>secondTokens := secondTokens l1 - 1,
                 minuteTokens := minuteTokens l1 - 1,
                 queue := tl (queue l1),
                 granted := granted l1 @ [(hd (queue l1), now)]\<rparr>)
         else
           l1\<lparr>timer := Some (if secondTokens l1 \<le> 0 then 1000 else 2000)\<rparr>)
      else l\<lparr>processing := False\<rparr>)"
  by pat_completeness auto
termination
  by (relation "measure (\<lambda>(now, l). length (queue l))") (auto simp: refill_def Let_def)

definition processQueue :: "int \<Rightarrow> limiter \<Rightarrow> limiter" where
  "processQueue now l =
     (if processing l then l else processQueue_loop now (l\<lparr>processing := True\<rparr>))"

text \<open>\<open>acquire()\<close> by waiter \<open>w\<close>: push, then \<open>_processQueue()\<close>.\<close>

definition acquire :: "nat \<Rightarrow> int \<Rightarrow> limiter \<Rightarrow> limiter" where
  "acquire w now l = processQueue now (l\<lparr>queue := queue l @ [w]\<rparr>)"

text \<open>The pending timer fires and the loop goes back to its test.\<close>

definition timer_fires :: "int \<Rightarrow> limiter \<Rightarrow> limiter" where
  "timer_fires now l =
     (case timer l of
        None \<Rightarrow> l
      | Some ms \<Rightarrow> processQueue_loop now (l\<lparr>timer := None\<rparr>))"

text \<open>A history of the limiter: the tasks that touch it, each with its clock reading.\<close>

datatype task = AcquireCall nat int | TimerFires int

fun task_time :: "task \<Rightarrow> int" where
  "task_time (AcquireCall w now) = now"
| "task_time (TimerFires now) = now"

fun run_task :: "task \<Rightarrow> limiter \<Rightarrow> limiter" where
  "run_task (AcquireCall w now) l = acquire w now l"
| "run_task (TimerFires now) l = timer_fires now l"

fun run_tasks :: "task list \<Rightarrow> limiter \<Rightarrow> limiter" where
  "run_tasks [] l = l"
| "run_tasks (t # ts) l = run_tasks ts (run_task t l)"

text \<open>The waiters in the order in which they called \<open>acquire()\<close>.\<close>

fun arrivals :: "task list \<Rightarrow> nat list" where
  "arrivals [] = []"
| "arrivals (AcquireCall w now # ts) = w # arrivals ts"
| "arrivals (TimerFires now # ts) = arrivals ts"

text \<open>Grants inside the window \<open>[from, from + len)\<close>.\<close>

definition grants_in :: "int \<Rightarrow> int \<Rightarrow> limiter \<Rightarrow> nat" where
  "grants_in from len l =
     length (filter (\<lambda>t. from \<le> t \<and> t < from + len) (map snd (granted l)))"

text \<open>Six callers around a second boundary of a limiter built at time 0.\<close>

definition burst :: "task list" where
  "burst = [AcquireCall 0 999, AcquireCall 1 999, AcquireCall 2 999,
            AcquireCall 3 1000, AcquireCall 4 1000, AcquireCall 5 1000]"

section \<open>Read service\<close>

subsection \<open>Middleware\<close>

text \<open>\<open>IP_RATE_LIMIT\<close>\<close>

definition maxRequests :: nat where
  "maxRequests = 60"

definition windowMs :: int where
  "windowMs = 60 * 1000"

text \<open>
  The parts of an HTTP request the handlers read. \<open>forwarded_first\<close> is
  \<open>req.headers["x-forwarded-for"]?.split(",")[0]?.trim()\<close>, \<open>None\<close> without the header.
  Query values are strings.
\<close>

record request =
  http_method :: string
  query :: "string \<rightharpoonup> string"
  forwarded_first :: "string option"
  req_ip :: "string option"

record reply =
  code :: nat
  body :: jv

record hit =
  count :: nat
  windowStart :: int

type_synonym hits = "string \<rightharpoonup> hit"

text \<open>\<open>a || b || "unknown"\<close> on strings that may be missing or empty.\<close>

definition client_ip :: "request \<Rightarrow> string" where
  "client_ip req =
     (case forwarded_first req of
        Some a \<Rightarrow> if a \<noteq> [] then a else
          (case req_ip req of Some b \<Rightarrow> if b \<noteq> [] then b else ''unknown'' | None \<Rightarrow> ''unknown'')
      | None \<Rightarrow>
          (case req_ip req of Some b \<Rightarrow> if b \<noteq> [] then b else ''unknown'' | None \<Rightarrow> ''unknown''))"

text \<open>
  Each middleware returns the reply it has sent, if it sent one (the source then returns
  \<open>false\<close>), and \<open>None\<close> when the request may proceed.
\<close>

definition checkRateLimit :: "request \<Rightarrow> int \<Rightarrow> hits \<Rightarrow> reply option \<times> hits" where
  "checkRateLimit req now ipHits =
     (let ip = client_ip req;
          entry =
            (case ipHits ip of
               None \<Rightarrow> \<lparr>count = 0, windowStart = now\<rparr>
             | Some e \<Rightarrow>
                 if now - windowStart e > windowMs then \<lparr>count = 0, windowStart = now\<rparr> else e);
          entry1 = entry\<lparr>count := count entry + 1\<rparr>;
          ipHits1 = ipHits(ip \<mapsto> entry1)
      in if count entry1 > maxRequests then
           (Some \<lparr>code = 429,
                  body = JObj [(''error'', JStr ''Too many requests''),
                               (''retryAfterMs'', JNum (of_int (windowMs - (now - windowStart entry1))))]\<rparr>,
            ipHits1)
         else (None, ipHits1))"

definition setCors :: "request \<Rightarrow> reply option" where
  "setCors req = (if http_method req = ''OPTIONS'' then Some \<lparr>code = 204, body = JStr []\<rparr> else None)"

definition applyMiddleware :: "request \<Rightarrow> int \<Rightarrow> hits \<Rightarrow> reply option \<times> hits" where
  "applyMiddleware req now ipHits =
     (case setCors req of
        Some r \<Rightarrow> (Some r, ipHits)
      | None \<Rightarrow> checkRateLimit req now ipHits)"

subsection \<open>Endpoints\<close>

text \<open>
  \<open>readCache\<close>: \<open>get()\<close> of one document; the read itself may reject. A missing document
  and a document whose \<open>data\<close> is \<open>null\<close> both give \<open>null\<close>.
\<close>

definition readCache :: "host \<Rightarrow> store \<Rightarrow> string \<Rightarrow> error + jv" where
  "readCache h st docId =
     (if store_reads h docId then
        (case st docId of None \<Rightarrow> Inr JNull | Some d \<Rightarrow> Inr (data d))
      else Inl StoreError)"

datatype endpoint =
    GetMeetings | GetSessions | GetSessionsByYear | GetDrivers | GetLatestDrivers
  | GetPositions | GetIntervals | GetSessionResult | GetLaps | GetWeather
  | GetRaceControl | GetStints | GetLatestSession | GetDriverStandings
  | GetConstructorStandings

text \<open>\<open>req.query.name\<close> when it is truthy.\<close>

definition param :: "request \<Rightarrow> string \<Rightarrow> string option" where
  "param req name =
     (case query req name of None \<Rightarrow> None | Some v \<Rightarrow> if v = [] then None else Some v)"

text \<open>\<open>const year = req.query.year || new Date().getFullYear()\<close>\<close>

definition year_of :: "int \<Rightarrow> request \<Rightarrow> string" where
  "year_of thisYear req =
     (case param req ''year'' of Some y \<Rightarrow> y | None \<Rightarrow> show_int thisYear)"

text \<open>\<open>key ? `prefix${key}` : null\<close>\<close>

definition keyed :: "string \<Rightarrow> string option \<Rightarrow> string option" where
  "keyed prefix key = (case key of Some k \<Rightarrow> Some (prefix @ k) | None \<Rightarrow> None)"

text \<open>The \<open>docIdFn\<close> of each endpoint; \<open>None\<close> is \<open>null\<close>.\<close>

fun docIdFn :: "int \<Rightarrow> endpoint \<Rightarrow> request \<Rightarrow> string option" where
  "docIdFn y GetMeetings req = Some (''meetings_'' @ year_of y req)"
| "docIdFn y GetSessions req = keyed ''sessions_'' (param req ''meeting_key'')"
| "docIdFn y GetSessionsByYear req = Some (''sessions_year_'' @ year_of y req)"
| "docIdFn y GetDrivers req = keyed ''drivers_'' (param req ''session_key'')"
| "docIdFn y GetLatestDrivers req = Some ''drivers_latest''"
| "docIdFn y GetPositions req = keyed ''positions_'' (param req ''session_key'')"
| "docIdFn y GetIntervals req = keyed ''intervals_'' (param req ''session_key'')"
| "docIdFn y GetSessionResult req = keyed ''result_'' (param req ''session_key'')"
| "docIdFn y GetLaps req =
     (let driverNumber = (case param req ''driver_number'' of Some d \<Rightarrow> d | None \<Rightarrow> ''all'')
      in case param req ''session_key'' of
           Some k \<Rightarrow> Some (''laps_'' @ k @ ''_'' @ driverNumber)
         | None \<Rightarrow> None)"
| "docIdFn y GetWeather req = keyed ''weather_'' (param req ''session_key'')"
| "docIdFn y GetRaceControl req = keyed ''race_control_'' (param req ''session_key'')"
| "docIdFn y GetStints req = keyed ''stints_'' (param req ''session_key'')"
| "docIdFn y GetLatestSession req = Some ''latest_session''"
| "docIdFn y GetDriverStandings req = Some (''driver_standings_'' @ year_of y req)"
| "docIdFn y GetConstructorStandings req = Some (''constructor_standings_'' @ year_of y req)"

text \<open>
  What one request leaves behind: the reply, the hit counters, and the documents read
  from the store.
\<close>

record handled =
  sent :: reply
  hits_after :: hits
  reads :: "string list"

definition missing_parameters :: reply where
  "missing_parameters =
     \<lparr>code = 400, body = JObj [(''error'', JStr ''Missing required query parameters'')]\<rparr>"

definition internal_error :: reply where
  "internal_error = \<lparr>code = 500, body = JObj [(''error'', JStr ''Internal server error'')]\<rparr>"

text \<open>
  The handler \<open>createEndpoint\<close> builds around a \<open>docIdFn\<close>. \<open>res.json(x)\<close> replies 200
  with \<open>x\<close>; \<open>!docId\<close> holds for \<open>null\<close> and for the empty string.
\<close>

definition createEndpoint ::
  "(request \<Rightarrow> string option) \<Rightarrow> host \<Rightarrow> store \<Rightarrow> int \<Rightarrow> hits \<Rightarrow> request \<Rightarrow> handled" where
  "createEndpoint idFn h st now ipHits req =
     (case applyMiddleware req now ipHits of
        (Some r, ipHits1) \<Rightarrow> \<lparr>sent = r, hits_after = ipHits1, reads = []\<rparr>
      | (None, ipHits1) \<Rightarrow>
          (case idFn req of
             None \<Rightarrow> \<lparr>sent = missing_parameters, hits_after = ipHits1, reads = []\<rparr>
           | Some docId \<Rightarrow>
               if docId = [] then
                 \<lparr>sent = missing_parameters, hits_after = ipHits1, reads = []\<rparr>
               else
                 (case readCache h st docId of
                    Inl e \<Rightarrow> \<lparr>sent = internal_error, hits_after = ipHits1, reads = [docId]\<rparr>
                  | Inr d \<Rightarrow>
                      if d = JNull then
                        \<lparr>sent = \<lparr>code = 200, body = JArr []\<rparr>,
                         hits_after = ipHits1, reads = [docId]\<rparr>
                      else
                        \<lparr>sent = \<lparr>code = 200, body = d\<rparr>,
                         hits_after = ipHits1, reads = [docId]\<rparr>)))"

definition serve :: "int \<Rightarrow> endpoint \<Rightarrow> host \<Rightarrow> store \<Rightarrow> int \<Rightarrow> hits \<Rightarrow> request \<Rightarrow> handled" where
  "serve thisYear e = createEndpoint (docIdFn thisYear e)"

text \<open>
  The interface table of the specification: the endpoints with a required identifying
  parameter, and that parameter.
\<close>

definition required_params :: "(endpoint \<times> string) list" where
  "required_params =
     [(GetSessions, ''meeting_key''), (GetDrivers, ''session_key''),
      (GetPositions, ''session_key''), (GetIntervals, ''session_key''),
      (GetSessionResult, ''session_key''), (GetLaps, ''session_key''),
      (GetWeather, ''session_key''), (GetRaceControl, ''session_key''),
      (GetStints, ''session_key'')]"

section \<open>Client-side cache\<close>

record entry =
  entry_data :: jv
  timestamp :: int

text \<open>
  A \<open>localStorage\<close> item under the cache prefix: the empty string, text that
  \<open>JSON.parse\<close> rejects, or the text of an entry that \<open>cacheSet\<close> wrote.
\<close>

datatype item = Empty | Unparseable | Parses entry

text \<open>
  The module state of the API client. \<open>pendingRefreshes\<close> is the key set of the map from
  cache key to in-flight promise; \<open>requested\<close> lists the URLs handed to \<open>fetch\<close>, and
  \<open>dispatched\<close> the DOM events sent, in order. Listeners of these events are taken not to
  call back into the client while the event is dispatched.
\<close>

record client =
  cache :: "string \<rightharpoonup> entry"
  localStorage :: "string \<rightharpoonup> item"
  pendingRefreshes :: "string set"
  activeRefreshCount :: nat
  requested :: "string list"
  dispatched :: "string list"

definition CACHE_PREFIX :: string where
  "CACHE_PREFIX = ''f1x_cache_''"

definition cacheGet :: "string \<Rightarrow> client \<Rightarrow> entry option \<times> client" where
  "cacheGet key c =
     (case cache c key of
        Some e \<Rightarrow> (Some e, c)
      | None \<Rightarrow>
          (case localStorage c (CACHE_PREFIX @ key) of
             None \<Rightarrow> (None, c)
           | Some Empty \<Rightarrow> (None, c)
           | Some (Parses e) \<Rightarrow> (Some e, c\<lparr>cache := (cache c)(key \<mapsto> e)\<rparr>)
           | Some Unparseable \<Rightarrow>
               (None, c\<lparr>localStorage := (localStorage c)(CACHE_PREFIX @ key := None)\<rparr>)))"

definition bgRefreshStart :: "client \<Rightarrow> client" where
  "bgRefreshStart c =
     (let c1 = c\<lparr>activeRefreshCount := activeRefreshCount c + 1\<rparr>
      in if activeRefreshCount c1 = 1
         then c1\<lparr>dispatched := dispatched c1 @ [''f1x:bg-refresh-start'']\<rparr>
         else c1)"

text \<open>
  \<open>backgroundRefresh\<close> up to its return: the callbacks chained on the promise run in
  later tasks.
\<close>

definition backgroundRefresh :: "string \<Rightarrow> string \<Rightarrow> client \<Rightarrow> client" where
  "backgroundRefresh url fullCacheKey c =
     (if fullCacheKey \<in> pendingRefreshes c then c
      else
        (let c1 = bgRefreshStart c;
             c2 = c1\<lparr>requested := requested c1 @ [url]\<rparr>
         in c2\<lparr>pendingRefreshes := insert fullCacheKey (pendingRefreshes c2)\<rparr>))"

text \<open>
  \<open>fetchBackend\<close> up to its first suspension. With a cached entry it returns at once;
  without one it stops in \<open>await fetch(url)\<close>.
\<close>

datatype answer = Returned jv | Awaiting string

definition fetchBackend ::
  "string \<Rightarrow> string option \<Rightarrow> int \<Rightarrow> int \<Rightarrow> client \<Rightarrow> answer \<times> client" where
  "fetchBackend url cacheKey cacheDuration now c =
     (let fullCacheKey = (case cacheKey of None \<Rightarrow> url | Some k \<Rightarrow> if k = [] then url else k)
      in case cacheGet fullCacheKey c of
           (Some cached, c1) \<Rightarrow>
             if now - timestamp cached < cacheDuration then (Returned (entry_data cached), c1)
             else (Returned (entry_data cached), backgroundRefresh url fullCacheKey c1)
         | (None, c1) \<Rightarrow>
             (let c2 = bgRefreshStart c1
              in (Awaiting url, c2\<lparr>requested := requested c2 @ [url]\<rparr>)))"

text \<open>
  Several calls for the same resource, one clock reading each, made one after the other
  with no refresh settling in between.
\<close>

fun gets :: "string \<Rightarrow> string option \<Rightarrow> int \<Rightarrow> int list \<Rightarrow> client \<Rightarrow> answer list \<times> client" where
  "gets url cacheKey cacheDuration [] c = ([], c)"
| "gets url cacheKey cacheDuration (now # nows) c =
     (case fetchBackend url cacheKey cacheDuration now c of
        (a, c1) \<Rightarrow>
          (case gets url cacheKey cacheDuration nows c1 of
             (as, c2) \<Rightarrow> (a # as, c2)))"

section \<open>Invariants of the rate limiter\<close>

text \<open>
  What holds of one bucket between tasks, for a bucket of capacity \<open>cap\<close> refilled every
  \<open>period\<close> milliseconds, with \<open>ts\<close> the times of all grants so far: the tokens stay within
  the capacity; every grant is younger than one period past the anchor; the grants
  since the anchor have used the missing tokens; those of the period before the anchor add
  at most one more capacity; and the window starting at \<open>w\<close> holds at most two capacities.
\<close>

definition bucket_inv :: "int \<Rightarrow> int \<Rightarrow> int \<Rightarrow> int \<Rightarrow> int \<Rightarrow> int list \<Rightarrow> bool" where
  "bucket_inv cap period w tokens anchor ts =
     (0 \<le> tokens \<and> tokens \<le> cap
      \<and> (\<forall>t \<in> set ts. t < anchor + period)
      \<and> int (length (filter (\<lambda>t. anchor \<le> t) ts)) \<le> cap - tokens
      \<and> int (length (filter (\<lambda>t. anchor - period < t) ts)) \<le> 2 * cap - tokens
      \<and> int (length (filter (\<lambda>t. w \<le> t \<and> t < w + period) ts)) \<le> 2 * cap)"

definition limiter_inv :: "int \<Rightarrow> int \<Rightarrow> int \<Rightarrow> limiter \<Rightarrow> bool" where
  "limiter_inv w1 w2 clock l =
     (bucket_inv (perSecond l) 1000 w1 (secondTokens l) (lastSecondRefill l)
        (map snd (granted l))
      \<and> bucket_inv (perMinute l) 60000 w2 (minuteTokens l) (lastMinuteRefill l)
          (map snd (granted l))
      \<and> lastSecondRefill l \<le> clock \<and> lastMinuteRefill l \<le> clock)"

text \<open>
  The grants so far were made at times that never decrease and none lies after the clock.
\<close>

definition grants_in_order :: "int \<Rightarrow> limiter \<Rightarrow> bool" where
  "grants_in_order clock l =
     (sorted (map snd (granted l)) \<and> (\<forall>t \<in> set (map snd (granted l)). t \<le> clock))"

section \<open>Which fetch feeds which document\<close>

text \<open>
  For one run of a job: the documents the run may write, each with the result of the
  upstream call whose data would go into it, and whether the write is guarded by
  \<open>if (data)\<close>. A feed has failed when its call threw, or when the write is guarded and the
  call returned a falsy value.
\<close>

type_synonym feed = "string \<times> (error + jv) \<times> bool"

definition feed_key :: "feed \<Rightarrow> string" where
  "feed_key f = fst f"

definition failed :: "feed \<Rightarrow> bool" where
  "failed f =
     (case f of
        (k, Inl e, guarded) \<Rightarrow> True
      | (k, Inr v, guarded) \<Rightarrow> guarded \<and> \<not> truthy v)"

definition live_feeds :: "host \<Rightarrow> live_upstream \<Rightarrow> feed list" where
  "live_feeds h up =
     (''latest_session'', up_sessions up, False) #
     (case up_sessions up of
        Inl e \<Rightarrow> []
      | Inr sessions \<Rightarrow>
          (let sk = to_string h (get_prop (latest_of h sessions) ''session_key'') in
           [(''positions_'' @ sk, up_positions up, True),
            (''intervals_'' @ sk, up_intervals up, True),
            (''stints_'' @ sk, up_stints up, True),
            (''weather_'' @ sk, up_weather up, True),
            (''race_control_'' @ sk, up_raceControl up, True),
            (''drivers_'' @ sk, up_drivers up, True),
            (''drivers_latest'', up_drivers up, True),
            (''laps_'' @ sk @ ''_all'', up_laps up, True)]))"

definition base_feeds :: "host \<Rightarrow> base_upstream \<Rightarrow> feed list" where
  "base_feeds h up =
     (''latest_session'', base_sessions up, False) #
     (case base_sessions up of
        Inl e \<Rightarrow> []
      | Inr sessions \<Rightarrow>
          (let sk = to_string h (get_prop (latest_of h sessions) ''session_key'') in
           [(''drivers_'' @ sk, base_drivers up, True),
            (''drivers_latest'', base_drivers up, True)]))"

definition standings_feeds :: "host \<Rightarrow> int \<Rightarrow> standings_upstream \<Rightarrow> feed list" where
  "standings_feeds h year up =
     [(''driver_standings_'' @ number_string h (of_int year),
         fetchDriverStandings (jolpica_drivers up), False),
      (''constructor_standings_'' @ number_string h (of_int year),
         fetchConstructorStandings (jolpica_constructors up), False)]"

text \<open>The meetings of the loop, up to the first that is \<open>null\<close> or \<open>undefined\<close>.\<close>

fun meeting_feeds :: "host \<Rightarrow> (nat \<Rightarrow> error + jv) \<Rightarrow> nat \<Rightarrow> jv list \<Rightarrow> feed list" where
  "meeting_feeds h ups i [] = []"
| "meeting_feeds h ups i (meeting # ms) =
     (if nullish meeting then []
      else (''sessions_'' @ to_string h (get_prop meeting ''meeting_key''), ups i, False)
             # meeting_feeds h ups (Suc i) ms)"

definition meetings_feeds :: "host \<Rightarrow> int \<Rightarrow> meetings_upstream \<Rightarrow> feed list" where
  "meetings_feeds h year up =
     (''meetings_'' @ number_string h (of_int year), up_meetings up, False) #
     (case up_meetings up of
        Inl e \<Rightarrow> []
      | Inr d \<Rightarrow>
          (case iterate d of
             None \<Rightarrow> []
           | Some ms \<Rightarrow> meeting_feeds h (up_meeting_sessions up) 0 ms))"

section \<open>Concrete inputs\<close>

text \<open>
  A host that reads the two dates of the session below, accepts every write and answers
  every read (the numbers of these inputs are safe integers, so its \<open>number_text\<close> is not
  consulted), and the session itself.
\<close>

definition demo_host :: host where
  "demo_host =
     \<lparr>date_getTime =
        (\<lambda>v. if v = JStr ''2026-03-08T04:00:00+00:00'' then Some 1772942400000
              else if v = JStr ''2026-03-08T06:00:00+00:00'' then Some 1772949600000
              else None),
      string_gt_zero = (\<lambda>s. False),
      store_accepts = (\<lambda>docId d. True),
      store_reads = (\<lambda>docId. True),
      serverTimestamp = 1772940000000,
      number_text = (\<lambda>x. ''1e+21'')\<rparr>"

definition demo_session :: jv where
  "demo_session =
     JObj [(''session_key'', JNum 9158),
           (''date_start'', JStr ''2026-03-08T04:00:00+00:00''),
           (''date_end'', JStr ''2026-03-08T06:00:00+00:00'')]"

text \<open>
  Five callers at 999 ms on a limiter of 3 per second built at time 0: two of them have to
  wait for the timer.
\<close>

definition waiting_line :: "task list" where
  "waiting_line = [AcquireCall 0 999, AcquireCall 1 999, AcquireCall 2 999,
                   AcquireCall 3 999, AcquireCall 4 999, TimerFires 2000]"

text \<open>
  A client whose memory cache holds one entry, written at time 1000, with nothing in
  flight; and ten clock readings more than a minute later.
\<close>

definition demo_client :: client where
  "demo_client =
     \<lparr>cache = [''meetings_2026'' \<mapsto> \<lparr>entry_data = JArr [JNum 1], timestamp = 1000\<rparr>],
      localStorage = Map.empty,
      pendingRefreshes = {},
      activeRefreshCount = 0,
      requested = [],
      dispatched = []\<rparr>"

text \<open>The same entry held by \<open>localStorage\<close> only, as after a reload of the page.\<close>

definition cold_client :: client where
  "cold_client =
     \<lparr>cache = Map.empty,
      localStorage =
        [''f1x_cache_meetings_2026'' \<mapsto>
           Parses \<lparr>entry_data = JArr [JNum 1], timestamp = 1000\<rparr>],
      pendingRefreshes = {},
      activeRefreshCount = 0,
      requested = [],
      dispatched = []\<rparr>"

definition ten_calls :: "int list" where
  "ten_calls = [70000, 70001, 70002, 70003, 70004, 70005, 70006, 70007, 70008, 70009]"

text \<open>
  A store that already holds the latest session and the positions of session 9158, and
  what the upstream module may answer to the jobs.
\<close>

definition stored :: store where
  "stored =
     [''latest_session'' \<mapsto> \<lparr>data = demo_session, updatedAt = 1772900000000\<rparr>,
      ''positions_9158'' \<mapsto> \<lparr>data = JArr [JNum 44], updatedAt = 1772900000000\<rparr>]"

definition no_sessions :: live_upstream where
  "no_sessions =
     \<lparr>up_sessions = Inr (JArr []),
      up_positions = Inl FetchRejected, up_intervals = Inl FetchRejected,
      up_stints = Inl FetchRejected, up_weather = Inl FetchRejected,
      up_raceControl = Inl FetchRejected, up_drivers = Inl FetchRejected,
      up_laps = Inl FetchRejected\<rparr>"

definition positions_down :: live_upstream where
  "positions_down =
     \<lparr>up_sessions = Inr (JArr [demo_session]),
      up_positions = Inl FetchRejected, up_intervals = Inr (JArr [JNum 1]),
      up_stints = Inr (JArr [JNum 1]), up_weather = Inr (JArr [JNum 1]),
      up_raceControl = Inr (JArr [JNum 1]), up_drivers = Inr (JArr [JNum 1]),
      up_laps = Inr (JArr [JNum 1])\<rparr>"

definition base_down :: base_upstream where
  "base_down = \<lparr>base_sessions = Inl FetchRejected, base_drivers = Inl FetchRejected\<rparr>"

definition standings_down :: standings_upstream where
  "standings_down =
     \<lparr>jolpica_drivers = Inl (UpstreamApiError 500), jolpica_constructors = Inr (JObj [])\<rparr>"

text \<open>
  Three meetings, the second of them \<open>null\<close>; the sessions call fails for the first meeting
  and would succeed for the others.
\<close>

definition meetings_partial :: meetings_upstream where
  "meetings_partial =
     \<lparr>up_meetings =
        Inr (JArr [JObj [(''meeting_key'', JNum 1279)], JNull,
                   JObj [(''meeting_key'', JNum 1280)]]),
      up_meeting_sessions = (\<lambda>i. if i = 0 then Inl FetchRejected else Inr (JArr [JNum 7]))\<rparr>"

text \<open>
  Requests from one address: a CORS preflight, a \<open>GET\<close> without parameters and a \<open>GET\<close>
  with \<open>year=2026\<close>; and the hit counters after sixty requests from that address in the
  window that began at time 0.
\<close>

definition preflight :: request where
  "preflight =
     \<lparr>http_method = ''OPTIONS'', query = Map.empty,
      forwarded_first = None, req_ip = Some ''203.0.113.7''\<rparr>"

definition plain_get :: request where
  "plain_get =
     \<lparr>http_method = ''GET'', query = Map.empty,
      forwarded_first = None, req_ip = Some ''203.0.113.7''\<rparr>"

definition get_2026 :: request where
  "get_2026 =
     \<lparr>http_method = ''GET'', query = [''year'' \<mapsto> ''2026''],
      forwarded_first = None, req_ip = Some ''203.0.113.7''\<rparr>"

definition busy_hits :: hits where
  "busy_hits = [''203.0.113.7'' \<mapsto> \<lparr>count = 60, windowStart = 0\<rparr>]"

section \<open>Verified properties\<close>

subsection \<open>Upstream client\<close>

declare fetchWithRetry_loop.simps [simp del]

lemma backoff_or_in_range:
  "attempt < MAX_RETRIES \<Longrightarrow> backoff_or attempt dflt = RETRY_BACKOFF_MS ! attempt"
proof -
  assume "attempt < MAX_RETRIES"
  then have "attempt = 0 \<or> attempt = 1 \<or> attempt = 2"
    by (auto simp: MAX_RETRIES_def)
  then show ?thesis
    by (auto simp: backoff_or_def RETRY_BACKOFF_MS_def)
qed

lemma loop_unfold_0: "fetchWithRetry_loop net 0 =
    (case try_fetch (net 0) 0 of
       Done out \<Rightarrow> (out, [Acquire, Fetch])
     | Again ms \<Rightarrow>
         (case fetchWithRetry_loop net (Suc 0) of
            (out, tr) \<Rightarrow> (out, Acquire # Fetch # Sleep ms # tr)))"
  by (subst fetchWithRetry_loop.simps) simp

lemma loop_unfold_Suc: "fetchWithRetry_loop net (Suc n) =
    (if n < MAX_RETRIES then
       (case try_fetch (net (Suc n)) (Suc n) of
          Done out \<Rightarrow> (out, [Acquire, Fetch])
        | Again ms \<Rightarrow>
            (case fetchWithRetry_loop net (Suc (Suc n)) of
               (out, tr) \<Rightarrow> (out, Acquire # Fetch # Sleep ms # tr)))
     else (Returns JUndefined, []))"
  by (subst fetchWithRetry_loop.simps) (simp add: less_eq_Suc_le)

text \<open>
  C1. When every attempt is answered with status 429, the call makes the first attempt and
  \<open>MAX_RETRIES\<close> further ones, with waits 1000, 3000, 8000 and 8000 ms that never shrink;
  but after the last wait the loop runs out and the call returns \<open>undefined\<close>: nothing is
  raised to the caller.
\<close>

theorem fetchWithRetry_always_429_returns_undefined:
  "fetchWithRetry always_429 =
     (Returns JUndefined,
      [Acquire, Fetch, Sleep 1000, Acquire, Fetch, Sleep 3000,
       Acquire, Fetch, Sleep 8000, Acquire, Fetch, Sleep 8000])"
  by (simp add: fetchWithRetry_def loop_unfold_0 loop_unfold_Suc always_429_def try_fetch_def
      ok_def backoff_or_def RETRY_BACKOFF_MS_def MAX_RETRIES_def)

text \<open>
  C2. A first response with a status that is neither 2xx nor 429 should end the call at
  once with that error. The code throws the error, but inside the \<open>try\<close>: its own \<open>catch\<close>
  block takes it, sleeps 1000 ms and lets the loop make a further attempt. Here the first
  response is a 500 and the second a 200, and the call returns the data.
\<close>

theorem fetchWithRetry_500_is_retried:
  "fetchWithRetry once_500_then_200 =
     (Returns (JArr []), [Acquire, Fetch, Sleep 1000, Acquire, Fetch])"
  by (simp add: fetchWithRetry_def loop_unfold_0 loop_unfold_Suc once_500_then_200_def
      try_fetch_def on_catch_def ok_def backoff_or_def RETRY_BACKOFF_MS_def MAX_RETRIES_def)

text \<open>
  What the loop does with such a status on any attempt: before the last attempt it sleeps
  \<open>RETRY_BACKOFF_MS[attempt]\<close> and goes on with the next attempt, as for a transport
  failure; only on the last attempt (\<open>attempt = MAX_RETRIES\<close>) does the call fail with that
  error, without sleeping and without a further attempt.
\<close>

lemma fetchWithRetry_other_status:
  assumes "net attempt = Resolves r" and "\<not> ok r" and "status r \<noteq> 429"
    and "attempt \<le> MAX_RETRIES"
  shows "fetchWithRetry_loop net attempt =
           (if attempt = MAX_RETRIES
            then (Throws (UpstreamApiError (status r)), [Acquire, Fetch])
            else (fst (fetchWithRetry_loop net (Suc attempt)),
                  Acquire # Fetch # Sleep (RETRY_BACKOFF_MS ! attempt)
                    # snd (fetchWithRetry_loop net (Suc attempt))))"
proof (cases "attempt = MAX_RETRIES")
  case True
  with assms show ?thesis
    by (subst fetchWithRetry_loop.simps) (simp add: try_fetch_def on_catch_def)
next
  case False
  with assms have lt: "attempt < MAX_RETRIES" by simp
  from assms False have "try_fetch (net attempt) attempt = Again (backoff_or attempt 2000)"
    by (simp add: try_fetch_def on_catch_def)
  with assms False backoff_or_in_range [OF lt] show ?thesis
    by (subst fetchWithRetry_loop.simps) (simp add: split_beta)
qed

lemma fetchWithRetry_other_status_witness:
  "once_500_then_200 0 = Resolves \<lparr>status = 500, json = None\<rparr>
   \<and> \<not> ok \<lparr>status = 500, json = None\<rparr>
   \<and> status \<lparr>status = 500, json = None\<rparr> \<noteq> 429
   \<and> 0 \<le> MAX_RETRIES
   \<and> fetchWithRetry_loop once_500_then_200 0 =
       (fst (fetchWithRetry_loop once_500_then_200 (Suc 0)),
        Acquire # Fetch # Sleep 1000 # snd (fetchWithRetry_loop once_500_then_200 (Suc 0)))"
proof -
  have a: "once_500_then_200 0 = Resolves \<lparr>status = 500, json = None\<rparr>"
    by (simp add: once_500_then_200_def)
  have b: "\<not> ok \<lparr>status = 500, json = None\<rparr>"
    by (simp add: ok_def)
  have c: "status \<lparr>status = 500, json = None\<rparr> \<noteq> 429"
    by simp
  have d: "0 \<le> MAX_RETRIES"
    by simp
  from fetchWithRetry_other_status
         [of once_500_then_200 0 "\<lparr>status = 500, json = None\<rparr>"] a b c d
  show ?thesis
    by (simp add: MAX_RETRIES_def RETRY_BACKOFF_MS_def)
qed

subsection \<open>Live window\<close>

text \<open>
  C6. For a session object whose \<open>date_start\<close> and \<open>date_end\<close> are present (truthy) and
  read as the times \<open>start\<close> and \<open>end\<close>, \<open>isSessionInLiveWindow\<close> is true exactly when
  \<open>start - 30 min \<le> now \<le> end + 60 min\<close>, both bounds included, and false for every other
  \<open>now\<close>.
\<close>

theorem isSessionInLiveWindow_closed_interval:
  assumes "truthy (get_prop (JObj kvs) ''date_start'')"
    and "truthy (get_prop (JObj kvs) ''date_end'')"
    and "date_getTime h (get_prop (JObj kvs) ''date_start'') = Some start"
    and "date_getTime h (get_prop (JObj kvs) ''date_end'') = Some end"
  shows "isSessionInLiveWindow h now (JObj kvs)
           = (start - 1800000 \<le> now \<and> now \<le> end + 3600000)"
  using assms
  by (simp add: isSessionInLiveWindow_def beforeStart_def afterEnd_def)

theorem isSessionInLiveWindow_closed_interval_witness:
  "truthy (get_prop demo_session ''date_start'')
   \<and> truthy (get_prop demo_session ''date_end'')
   \<and> date_getTime demo_host (get_prop demo_session ''date_start'') = Some 1772942400000
   \<and> date_getTime demo_host (get_prop demo_session ''date_end'') = Some 1772949600000
   \<and> isSessionInLiveWindow demo_host 1772940600000 demo_session
   \<and> isSessionInLiveWindow demo_host 1772953200000 demo_session
   \<and> \<not> isSessionInLiveWindow demo_host 1772940599999 demo_session
   \<and> \<not> isSessionInLiveWindow demo_host 1772953200001 demo_session"
proof -
  have a: "truthy (get_prop demo_session ''date_start'')"
    and b: "truthy (get_prop demo_session ''date_end'')"
    and c: "date_getTime demo_host (get_prop demo_session ''date_start'') = Some 1772942400000"
    and d: "date_getTime demo_host (get_prop demo_session ''date_end'') = Some 1772949600000"
    by (simp_all add: demo_session_def demo_host_def)
  note w = isSessionInLiveWindow_closed_interval
             [OF a [unfolded demo_session_def] b [unfolded demo_session_def]
                 c [unfolded demo_session_def] d [unfolded demo_session_def],
              folded demo_session_def]
  from a b c d w [of 1772940600000] w [of 1772953200000] w [of 1772940599999]
    w [of 1772953200001]
  show ?thesis by simp
qed


subsection \<open>Rate limiter\<close>

declare processQueue_loop.simps [simp del]

lemma refill_keeps [simp]:
  "queue (refill now l) = queue l" "granted (refill now l) = granted l"
  "processing (refill now l) = processing l" "timer (refill now l) = timer l"
  "perSecond (refill now l) = perSecond l" "perMinute (refill now l) = perMinute l"
  by (simp_all add: refill_def Let_def)

lemma loop_fifo:
  "map fst (granted (processQueue_loop now l)) @ queue (processQueue_loop now l)
     = map fst (granted l) @ queue l"
proof (induction now l rule: processQueue_loop.induct)
  case (1 now l)
  show ?case
  proof (cases "queue l = []")
    case True
    then show ?thesis by (subst (1 2) processQueue_loop.simps) simp
  next
    case False
    show ?thesis
    proof (cases "secondTokens (refill now l) > 0 \<and> minuteTokens (refill now l) > 0")
      case True
      with False 1 [OF False refl True] show ?thesis
        by (subst (1 2) processQueue_loop.simps) (cases "queue l"; simp add: Let_def)
    next
      case no: False
      with False show ?thesis
        by (subst (1 2) processQueue_loop.simps) (auto simp add: Let_def)
    qed
  qed
qed

lemma task_fifo:
  "map fst (granted (run_task t l)) @ queue (run_task t l)
     = map fst (granted l) @ queue l @ arrivals [t]"
  by (cases t) (simp_all add: acquire_def processQueue_def timer_fires_def loop_fifo
      split: option.splits)

lemma run_fifo:
  "map fst (granted (run_tasks ts l)) @ queue (run_tasks ts l)
     = map fst (granted l) @ queue l @ arrivals ts"
proof (induction ts arbitrary: l)
  case Nil
  then show ?case by simp
next
  case (Cons t ts)
  have "arrivals (t # ts) = arrivals [t] @ arrivals ts"
    by (cases t) simp_all
  with Cons [of "run_task t l"] task_fifo [of t l] show ?case
    by simp
qed

lemma loop_in_order:
  "grants_in_order clock l \<Longrightarrow> clock \<le> now
     \<Longrightarrow> grants_in_order now (processQueue_loop now l)"
proof (induction now l arbitrary: clock rule: processQueue_loop.induct)
  case (1 now l)
  from "1.prems" have base: "grants_in_order now l"
    by (fastforce simp: grants_in_order_def)
  show ?case
  proof (cases "queue l \<noteq> []
      \<and> secondTokens (refill now l) > 0 \<and> minuteTokens (refill now l) > 0")
    case True
    from base have "grants_in_order now
        ((refill now l)\<lparr>secondTokens := secondTokens (refill now l) - 1,
           minuteTokens := minuteTokens (refill now l) - 1,
           queue := tl (queue (refill now l)),
           granted := granted (refill now l) @ [(hd (queue (refill now l)), now)]\<rparr>)"
      by (auto simp: grants_in_order_def sorted_append)
    from "1.IH" [OF _ refl _ this] True show ?thesis
      by (subst processQueue_loop.simps) (simp add: Let_def)
  next
    case False
    with base show ?thesis
      by (subst processQueue_loop.simps) (auto simp: Let_def grants_in_order_def)
  qed
qed

lemma task_in_order:
  assumes "grants_in_order clock l" and "clock \<le> task_time t"
  shows "grants_in_order (task_time t) (run_task t l)"
proof (cases t)
  case (AcquireCall x now)
  from assms(1) have a: "grants_in_order clock (l\<lparr>queue := queue l @ [x], processing := True\<rparr>)"
    and b: "grants_in_order now (l\<lparr>queue := queue l @ [x]\<rparr>)" if "clock \<le> now"
    using that by (fastforce simp: grants_in_order_def)+
  from assms AcquireCall loop_in_order [OF a, of now] b show ?thesis
    by (simp add: acquire_def processQueue_def)
next
  case (TimerFires now)
  from assms(1) have a: "grants_in_order clock (l\<lparr>timer := None\<rparr>)"
    and b: "grants_in_order now l" if "clock \<le> now"
    using that by (fastforce simp: grants_in_order_def)+
  from assms TimerFires loop_in_order [OF a, of now] b show ?thesis
    by (simp add: timer_fires_def split: option.splits)
qed

lemma run_in_order:
  "grants_in_order clock l \<Longrightarrow> sorted (clock # map task_time ts)
     \<Longrightarrow> sorted (map snd (granted (run_tasks ts l)))"
proof (induction ts arbitrary: l clock)
  case Nil
  then show ?case by (simp add: grants_in_order_def)
next
  case (Cons t ts)
  from Cons.prems have "clock \<le> task_time t" "sorted (task_time t # map task_time ts)"
    by simp_all
  with Cons.IH [OF task_in_order [OF Cons.prems(1)]] show ?case by simp
qed

text \<open>
  C7. Whatever the history of \<open>acquire()\<close> calls and timer wake-ups, the waiters granted so
  far, in the order of their grants, followed by the waiters still queued, are exactly the
  callers in the order of their arrival: grants follow arrival order, and a caller that
  arrived before another is never granted after it. With a clock that does not run
  backwards, the times of the grants never decrease along that order.
\<close>

theorem limiter_fifo:
  "map fst (granted (run_tasks ts (new_limiter perSec perMin t0)))
     @ queue (run_tasks ts (new_limiter perSec perMin t0)) = arrivals ts
   \<and> (sorted (t0 # map task_time ts) \<longrightarrow>
        sorted (map snd (granted (run_tasks ts (new_limiter perSec perMin t0)))))"
proof (intro conjI impI)
  show "map fst (granted (run_tasks ts (new_limiter perSec perMin t0)))
     @ queue (run_tasks ts (new_limiter perSec perMin t0)) = arrivals ts"
    using run_fifo [of ts "new_limiter perSec perMin t0"]
    by (simp add: new_limiter_def)
next
  assume s: "sorted (t0 # map task_time ts)"
  have "grants_in_order t0 (new_limiter perSec perMin t0)"
    by (simp add: grants_in_order_def new_limiter_def)
  from run_in_order [OF this s]
  show "sorted (map snd (granted (run_tasks ts (new_limiter perSec perMin t0))))" .
qed

theorem limiter_fifo_witness:
  "sorted (0 # map task_time waiting_line)
   \<and> arrivals waiting_line = [0, 1, 2, 3, 4]
   \<and> granted (run_tasks [AcquireCall 0 999, AcquireCall 1 999, AcquireCall 2 999,
                 AcquireCall 3 999, AcquireCall 4 999] (new_limiter 3 30 0))
       = [(0, 999), (1, 999), (2, 999)]
   \<and> queue (run_tasks [AcquireCall 0 999, AcquireCall 1 999, AcquireCall 2 999,
                 AcquireCall 3 999, AcquireCall 4 999] (new_limiter 3 30 0)) = [3, 4]
   \<and> granted (run_tasks waiting_line (new_limiter 3 30 0))
       = [(0, 999), (1, 999), (2, 999), (3, 2000), (4, 2000)]
   \<and> map fst (granted (run_tasks waiting_line (new_limiter 3 30 0)))
       @ queue (run_tasks waiting_line (new_limiter 3 30 0)) = arrivals waiting_line
   \<and> sorted (map snd (granted (run_tasks waiting_line (new_limiter 3 30 0))))"
proof -
  have s: "sorted (0 # map task_time waiting_line)"
    and a: "arrivals waiting_line = [0, 1, 2, 3, 4]"
    by (simp_all add: waiting_line_def)
  have before: "granted (run_tasks [AcquireCall 0 999, AcquireCall 1 999, AcquireCall 2 999,
                 AcquireCall 3 999, AcquireCall 4 999] (new_limiter 3 30 0))
       = [(0, 999), (1, 999), (2, 999)]"
    "queue (run_tasks [AcquireCall 0 999, AcquireCall 1 999, AcquireCall 2 999,
                 AcquireCall 3 999, AcquireCall 4 999] (new_limiter 3 30 0)) = [3, 4]"
    by (simp_all add: new_limiter_def acquire_def processQueue_def
        processQueue_loop.simps refill_def Let_def)
  have after: "granted (run_tasks waiting_line (new_limiter 3 30 0))
       = [(0, 999), (1, 999), (2, 999), (3, 2000), (4, 2000)]"
    by (simp add: waiting_line_def new_limiter_def acquire_def processQueue_def timer_fires_def
        processQueue_loop.simps refill_def Let_def)
  from limiter_fifo [of waiting_line 3 30 0] s a before after show ?thesis
    by simp
qed

lemma filter_length_mono:
  "(\<And>x. x \<in> set xs \<Longrightarrow> P x \<Longrightarrow> Q x) \<Longrightarrow> length (filter P xs) \<le> length (filter Q xs)"
  by (induction xs) auto

lemma full_after_refill:
  assumes "0 \<le> tokens" and "tokens \<le> cap" and "(1::int) \<le> k"
  shows "min cap (tokens + k * cap) = cap"
proof -
  from assms have "0 \<le> cap" by simp
  with assms have "1 * cap \<le> k * cap" by (intro mult_right_mono) simp_all
  with assms show ?thesis by simp
qed

lemma bucket_refill:
  assumes inv: "bucket_inv cap period w tokens anchor ts"
    and "0 < period" and "now - anchor \<ge> period"
  shows "bucket_inv cap period w (min cap (tokens + ((now - anchor) div period) * cap)) now ts"
proof -
  from inv have tok: "0 \<le> tokens" "tokens \<le> cap"
    and young: "\<And>t. t \<in> set ts \<Longrightarrow> t < anchor + period"
    and cur: "int (length (filter (\<lambda>t. anchor \<le> t) ts)) \<le> cap - tokens"
    and win: "int (length (filter (\<lambda>t. w \<le> t \<and> t < w + period) ts)) \<le> 2 * cap"
    by (simp_all add: bucket_inv_def)
  from assms have "period div period \<le> (now - anchor) div period"
    by (intro zdiv_mono1) simp_all
  with assms have "1 \<le> (now - anchor) div period"
    by simp
  with tok have full: "min cap (tokens + ((now - anchor) div period) * cap) = cap"
    by (rule full_after_refill)
  have none: "filter (\<lambda>t. now \<le> t) ts = []"
    using young assms by (fastforce simp: filter_empty_conv)
  have "length (filter (\<lambda>t. now - period < t) ts) \<le> length (filter (\<lambda>t. anchor \<le> t) ts)"
    using assms by (intro filter_length_mono) simp
  with cur tok have prev: "int (length (filter (\<lambda>t. now - period < t) ts)) \<le> cap"
    by simp
  have "\<And>t. t \<in> set ts \<Longrightarrow> t < now + period"
    using young assms by fastforce
  with tok none prev win show ?thesis
    unfolding full by (simp add: bucket_inv_def)
qed

lemma bucket_grant:
  assumes inv: "bucket_inv cap period w tokens anchor ts"
    and "0 < tokens" and "anchor \<le> now" and "now < anchor + period"
  shows "bucket_inv cap period w (tokens - 1) anchor (ts @ [now])"
proof -
  from inv have tok: "0 \<le> tokens" "tokens \<le> cap"
    and young: "\<And>t. t \<in> set ts \<Longrightarrow> t < anchor + period"
    and cur: "int (length (filter (\<lambda>t. anchor \<le> t) ts)) \<le> cap - tokens"
    and prev: "int (length (filter (\<lambda>t. anchor - period < t) ts)) \<le> 2 * cap - tokens"
    and win: "int (length (filter (\<lambda>t. w \<le> t \<and> t < w + period) ts)) \<le> 2 * cap"
    by (simp_all add: bucket_inv_def)
  have win': "int (length (filter (\<lambda>t. w \<le> t \<and> t < w + period) (ts @ [now]))) \<le> 2 * cap"
  proof (cases "w \<le> now \<and> now < w + period")
    case True
    have "length (filter (\<lambda>t. w \<le> t \<and> t < w + period) ts)
            \<le> length (filter (\<lambda>t. anchor - period < t) ts)"
      using True assms by (intro filter_length_mono) simp
    with prev assms True show ?thesis by simp
  next
    case False
    with win show ?thesis by auto
  qed
  from tok young cur prev assms win' show ?thesis
    by (auto simp add: bucket_inv_def)
qed

lemma bucket_start: "0 \<le> cap \<Longrightarrow> bucket_inv cap period w cap anchor []"
  by (simp add: bucket_inv_def)

lemma refill_inv:
  assumes "limiter_inv w1 w2 clock l" and "clock \<le> now"
  shows "limiter_inv w1 w2 now (refill now l)"
    and "now < lastSecondRefill (refill now l) + 1000"
    and "now < lastMinuteRefill (refill now l) + 60000"
proof -
  from assms have s: "bucket_inv (perSecond l) 1000 w1 (secondTokens l) (lastSecondRefill l)
        (map snd (granted l))"
    and m: "bucket_inv (perMinute l) 60000 w2 (minuteTokens l) (lastMinuteRefill l)
        (map snd (granted l))"
    and le: "lastSecondRefill l \<le> now" "lastMinuteRefill l \<le> now"
    by (simp_all add: limiter_inv_def)
  show "limiter_inv w1 w2 now (refill now l)"
    using s m le bucket_refill [OF s, of now] bucket_refill [OF m, of now]
    by (simp add: limiter_inv_def refill_def Let_def)
  show "now < lastSecondRefill (refill now l) + 1000"
    by (simp add: refill_def Let_def)
  show "now < lastMinuteRefill (refill now l) + 60000"
    by (simp add: refill_def Let_def)
qed

lemma grant_inv:
  assumes "limiter_inv w1 w2 now l"
    and "now < lastSecondRefill l + 1000" and "now < lastMinuteRefill l + 60000"
    and "0 < secondTokens l" and "0 < minuteTokens l"
  shows "limiter_inv w1 w2 now
           (l\<lparr>secondTokens := secondTokens l - 1, minuteTokens := minuteTokens l - 1,
              queue := q, granted := granted l @ [(x, now)]\<rparr>)"
proof -
  from assms have s: "bucket_inv (perSecond l) 1000 w1 (secondTokens l) (lastSecondRefill l)
        (map snd (granted l))"
    and m: "bucket_inv (perMinute l) 60000 w2 (minuteTokens l) (lastMinuteRefill l)
        (map snd (granted l))"
    and le: "lastSecondRefill l \<le> now" "lastMinuteRefill l \<le> now"
    by (simp_all add: limiter_inv_def)
  from bucket_grant [OF s, of now] bucket_grant [OF m, of now] assms le show ?thesis
    by (simp add: limiter_inv_def)
qed

lemma loop_inv:
  "limiter_inv w1 w2 clock l \<Longrightarrow> clock \<le> now
     \<Longrightarrow> limiter_inv w1 w2 now (processQueue_loop now l)"
proof (induction now l arbitrary: clock rule: processQueue_loop.induct)
  case (1 now l)
  show ?case
  proof (cases "queue l = []")
    case True
    with "1.prems" show ?thesis
      by (subst processQueue_loop.simps) (auto simp add: limiter_inv_def)
  next
    case False
    note r = refill_inv [OF "1.prems"]
    show ?thesis
    proof (cases "secondTokens (refill now l) > 0 \<and> minuteTokens (refill now l) > 0")
      case True
      from True have g: "limiter_inv w1 w2 now
           ((refill now l)\<lparr>secondTokens := secondTokens (refill now l) - 1,
              minuteTokens := minuteTokens (refill now l) - 1,
              queue := tl (queue (refill now l)),
              granted := granted (refill now l) @ [(hd (queue (refill now l)), now)]\<rparr>)"
        by (intro grant_inv r) simp_all
      from "1.IH" [OF False refl True g] False True show ?thesis
        by (subst processQueue_loop.simps) (simp add: Let_def)
    next
      case no: False
      from r(1) have "limiter_inv w1 w2 now
          ((refill now l)\<lparr>timer := Some (if secondTokens (refill now l) \<le> 0 then 1000 else 2000)\<rparr>)"
        by (simp add: limiter_inv_def)
      with False no show ?thesis
        by (subst processQueue_loop.simps) (auto simp add: Let_def)
    qed
  qed
qed

lemma loop_caps:
  "perSecond (processQueue_loop now l) = perSecond l
   \<and> perMinute (processQueue_loop now l) = perMinute l"
proof (induction now l rule: processQueue_loop.induct)
  case (1 now l)
  show ?case
  proof (cases "queue l \<noteq> []
      \<and> secondTokens (refill now l) > 0 \<and> minuteTokens (refill now l) > 0")
    case True
    with 1 [of "refill now l"] show ?thesis
      by (subst (1 2) processQueue_loop.simps) (simp add: Let_def)
  next
    case False
    then show ?thesis
      by (subst (1 2) processQueue_loop.simps) (auto simp add: Let_def)
  qed
qed

lemma task_caps:
  "perSecond (run_task t l) = perSecond l \<and> perMinute (run_task t l) = perMinute l"
  by (cases t) (simp_all add: acquire_def processQueue_def timer_fires_def loop_caps
      split: option.splits)

lemma run_caps:
  "perSecond (run_tasks ts l) = perSecond l \<and> perMinute (run_tasks ts l) = perMinute l"
  by (induction ts arbitrary: l) (simp_all add: task_caps)

lemma task_inv:
  assumes "limiter_inv w1 w2 clock l" and "clock \<le> task_time t"
  shows "limiter_inv w1 w2 (task_time t) (run_task t l)"
proof (cases t)
  case (AcquireCall x now)
  from assms(1) have a: "limiter_inv w1 w2 clock (l\<lparr>queue := queue l @ [x], processing := True\<rparr>)"
    and b: "limiter_inv w1 w2 now (l\<lparr>queue := queue l @ [x]\<rparr>)" if "clock \<le> now"
    using that by (auto simp add: limiter_inv_def)
  from assms AcquireCall loop_inv [OF a, of now] b show ?thesis
    by (simp add: acquire_def processQueue_def)
next
  case (TimerFires now)
  from assms(1) have a: "limiter_inv w1 w2 clock (l\<lparr>timer := None\<rparr>)"
    and b: "limiter_inv w1 w2 now l" if "clock \<le> now"
    using that by (auto simp add: limiter_inv_def)
  from assms TimerFires loop_inv [OF a, of now] b show ?thesis
    by (simp add: timer_fires_def split: option.splits)
qed

lemma run_inv:
  "limiter_inv w1 w2 clock l \<Longrightarrow> sorted (clock # map task_time ts)
     \<Longrightarrow> \<exists>c. limiter_inv w1 w2 c (run_tasks ts l)"
proof (induction ts arbitrary: l clock)
  case Nil
  then show ?case by auto
next
  case (Cons t ts)
  from Cons.prems have "clock \<le> task_time t" "sorted (task_time t # map task_time ts)"
    by simp_all
  with Cons.IH [OF task_inv [OF Cons.prems(1)]] show ?case by simp
qed

text \<open>
  C3, as stated, fails. A limiter of 3 per second and 30 per minute is built at time 0;
  three callers arrive at 999 ms and three at 1000 ms. The refill at 1000 ms restores the
  second bucket, so all six are granted within one millisecond.
\<close>

theorem limiter_burst_exceeds_per_second:
  "sorted (0 # map task_time burst)
   \<and> grants_in 999 1000 (run_tasks burst (new_limiter 3 30 0)) = 6
   \<and> \<not> int (grants_in 999 1000 (run_tasks burst (new_limiter 3 30 0))) \<le> 3"
  by (simp add: grants_in_def burst_def new_limiter_def acquire_def processQueue_def
      processQueue_loop.simps refill_def Let_def)

text \<open>
  C3, amended. With capacities \<open>S\<close> and \<open>M\<close> (not negative) and a clock that does not run
  backwards, at most \<open>2 * S\<close> grants fall into any window of 1000 ms and at most \<open>2 * M\<close>
  into any window of 60000 ms: a bucket is refilled to its capacity as soon as a full period
  has passed since its anchor, so a window can straddle one refill.
\<close>

theorem limiter_window_bound:
  assumes "0 \<le> perSec" and "0 \<le> perMin" and "sorted (t0 # map task_time ts)"
  shows "int (grants_in w 1000 (run_tasks ts (new_limiter perSec perMin t0))) \<le> 2 * perSec
       \<and> int (grants_in w' 60000 (run_tasks ts (new_limiter perSec perMin t0))) \<le> 2 * perMin"
proof -
  note keep = run_caps [of ts]
  from assms have "limiter_inv w w' t0 (new_limiter perSec perMin t0)"
    by (simp add: limiter_inv_def new_limiter_def bucket_start)
  from run_inv [OF this assms(3)] obtain c
    where "limiter_inv w w' c (run_tasks ts (new_limiter perSec perMin t0))" ..
  with keep [of "new_limiter perSec perMin t0"] show ?thesis
    by (simp add: limiter_inv_def bucket_inv_def grants_in_def new_limiter_def)
qed

theorem limiter_window_bound_witness:
  "(0::int) \<le> 3 \<and> (0::int) \<le> 30 \<and> sorted (0 # map task_time burst)
   \<and> int (grants_in 999 1000 (run_tasks burst (new_limiter 3 30 0))) \<le> 2 * 3
   \<and> int (grants_in 0 60000 (run_tasks burst (new_limiter 3 30 0))) \<le> 2 * 30"
proof -
  have s: "sorted (0 # map task_time burst)"
    by (simp add: burst_def)
  from limiter_window_bound [of 3 30 0 burst 999 0] s show ?thesis
    by simp
qed

subsection \<open>Client-side cache\<close>

lemma cacheGet_memory: "cache c key = Some e \<Longrightarrow> cacheGet key c = (Some e, c)"
  by (simp add: cacheGet_def)

lemma cacheGet_Some:
  "cacheGet key c = (Some e, c1) \<Longrightarrow>
     cache c1 key = Some e \<and> requested c1 = requested c
     \<and> pendingRefreshes c1 = pendingRefreshes c"
  by (auto simp add: cacheGet_def split: option.splits item.splits)

lemma backgroundRefresh_pending:
  "key \<in> pendingRefreshes c \<Longrightarrow> backgroundRefresh url key c = c"
  by (simp add: backgroundRefresh_def)

lemma backgroundRefresh_first:
  assumes "key \<notin> pendingRefreshes c"
  shows "requested (backgroundRefresh url key c) = requested c @ [url]"
    and "key \<in> pendingRefreshes (backgroundRefresh url key c)"
    and "cache (backgroundRefresh url key c) = cache c"
  using assms by (simp_all add: backgroundRefresh_def bgRefreshStart_def Let_def)

lemma gets_in_flight:
  assumes "cache c key = Some e" and "key \<in> pendingRefreshes c"
    and "key = (case cacheKey of None \<Rightarrow> url | Some k \<Rightarrow> if k = [] then url else k)"
  shows "\<forall>t \<in> set nows. ttl \<le> t - timestamp e \<Longrightarrow>
     gets url cacheKey ttl nows c = (replicate (length nows) (Returned (entry_data e)), c)"
proof (induction nows)
  case Nil
  then show ?case by simp
next
  case (Cons now nows)
  then have stale: "\<not> now - timestamp e < ttl" by simp
  from assms stale
  have "fetchBackend url cacheKey ttl now c = (Returned (entry_data e), c)"
    by (simp add: fetchBackend_def cacheGet_memory backgroundRefresh_pending)
  with Cons show ?case by simp
qed

lemma fetchBackend_after_lookup:
  assumes key: "key = (case cacheKey of None \<Rightarrow> url | Some k \<Rightarrow> if k = [] then url else k)"
    and hit: "cacheGet key c = (Some e, c1)"
  shows "(now - timestamp e < ttl \<longrightarrow>
            fetchBackend url cacheKey ttl now c = (Returned (entry_data e), c1)
            \<and> requested c1 = requested c)
       \<and> (key \<notin> pendingRefreshes c \<and> (\<forall>t \<in> set (now # nows). ttl \<le> t - timestamp e) \<longrightarrow>
            fst (gets url cacheKey ttl (now # nows) c)
              = replicate (Suc (length nows)) (Returned (entry_data e))
            \<and> requested (snd (gets url cacheKey ttl (now # nows) c)) = requested c @ [url]
            \<and> key \<in> pendingRefreshes (snd (gets url cacheKey ttl (now # nows) c)))"
proof (intro conjI impI)
  assume "now - timestamp e < ttl"
  with key hit show "fetchBackend url cacheKey ttl now c = (Returned (entry_data e), c1)"
    by (simp add: fetchBackend_def)
  from cacheGet_Some [OF hit] show "requested c1 = requested c" by simp
next
  assume a: "key \<notin> pendingRefreshes c \<and> (\<forall>t \<in> set (now # nows). ttl \<le> t - timestamp e)"
  note g = cacheGet_Some [OF hit]
  let ?c2 = "backgroundRefresh url key c1"
  from a g have np: "key \<notin> pendingRefreshes c1" by simp
  from a key hit have first: "fetchBackend url cacheKey ttl now c = (Returned (entry_data e), ?c2)"
    by (simp add: fetchBackend_def)
  from g backgroundRefresh_first [OF np, of url]
  have c2: "cache ?c2 key = Some e" "key \<in> pendingRefreshes ?c2"
    "requested ?c2 = requested c @ [url]"
    by simp_all
  from a have "\<forall>t \<in> set nows. ttl \<le> t - timestamp e" by simp
  from gets_in_flight [OF c2(1) c2(2) key this]
  have rest: "gets url cacheKey ttl nows ?c2
                = (replicate (length nows) (Returned (entry_data e)), ?c2)" .
  from first rest c2(2,3)
  show "fst (gets url cacheKey ttl (now # nows) c)
          = replicate (Suc (length nows)) (Returned (entry_data e))"
    and "requested (snd (gets url cacheKey ttl (now # nows) c)) = requested c @ [url]"
    and "key \<in> pendingRefreshes (snd (gets url cacheKey ttl (now # nows) c))"
    by simp_all
qed

lemma cacheGet_tiers:
  assumes "cache c key = Some e
     \<or> (cache c key = None \<and> localStorage c (CACHE_PREFIX @ key) = Some (Parses e))"
  shows "cacheGet key c = (Some e, c\<lparr>cache := (cache c)(key \<mapsto> e)\<rparr>)"
proof -
  have "c\<lparr>cache := (cache c)(key \<mapsto> e)\<rparr> = c" if "cache c key = Some e"
    using that by (simp add: fun_upd_idem)
  with assms show ?thesis
    by (auto simp add: cacheGet_def)
qed

text \<open>
  C5. Let the cache hold an entry for the key of a call, in memory or, when memory has
  none, as a readable item of \<open>localStorage\<close>. If the entry is younger than the TTL,
  \<open>fetchBackend\<close> returns its data, hands no URL to \<open>fetch\<close> and starts no refresh; the
  entry is in memory afterwards. If no refresh is in flight for the key and the entry's age
  is at or above the TTL at each of a series of calls made while the first refresh is still
  in flight (ten calls, or any other number), every call returns the stale data at once,
  exactly one URL is handed to \<open>fetch\<close> in total, and the refresh is in flight afterwards.
\<close>

theorem fetchBackend_fresh_and_stale:
  assumes key: "key = (case cacheKey of None \<Rightarrow> url | Some k \<Rightarrow> if k = [] then url else k)"
    and held: "cache c key = Some e
     \<or> (cache c key = None \<and> localStorage c (CACHE_PREFIX @ key) = Some (Parses e))"
  shows "(now - timestamp e < ttl \<longrightarrow>
            fst (fetchBackend url cacheKey ttl now c) = Returned (entry_data e)
            \<and> requested (snd (fetchBackend url cacheKey ttl now c)) = requested c
            \<and> pendingRefreshes (snd (fetchBackend url cacheKey ttl now c)) = pendingRefreshes c
            \<and> cache (snd (fetchBackend url cacheKey ttl now c)) key = Some e)
       \<and> (key \<notin> pendingRefreshes c \<and> (\<forall>t \<in> set (now # nows). ttl \<le> t - timestamp e) \<longrightarrow>
            fst (gets url cacheKey ttl (now # nows) c)
              = replicate (Suc (length nows)) (Returned (entry_data e))
            \<and> requested (snd (gets url cacheKey ttl (now # nows) c)) = requested c @ [url]
            \<and> key \<in> pendingRefreshes (snd (gets url cacheKey ttl (now # nows) c)))"
proof -
  note hit = cacheGet_tiers [OF held]
  from fetchBackend_after_lookup [OF key hit, of now ttl nows] cacheGet_Some [OF hit]
  show ?thesis
    by (simp del: gets.simps)
qed

theorem fetchBackend_fresh_and_stale_witness:
  "cache demo_client ''meetings_2026'' = Some \<lparr>entry_data = JArr [JNum 1], timestamp = 1000\<rparr>
   \<and> cache cold_client ''meetings_2026'' = None
   \<and> localStorage cold_client (CACHE_PREFIX @ ''meetings_2026'')
       = Some (Parses \<lparr>entry_data = JArr [JNum 1], timestamp = 1000\<rparr>)
   \<and> (2000::int) - 1000 < 60000
   \<and> ''meetings_2026'' \<notin> pendingRefreshes demo_client
   \<and> ''meetings_2026'' \<notin> pendingRefreshes cold_client
   \<and> list_all (\<lambda>t. 60000 \<le> t - 1000) ten_calls
   \<and> length ten_calls = 10
   \<and> fst (fetchBackend ''https://backend/getMeetings?year=2026'' (Some ''meetings_2026'') 60000
             2000 demo_client) = Returned (JArr [JNum 1])
   \<and> requested (snd (fetchBackend ''https://backend/getMeetings?year=2026''
             (Some ''meetings_2026'') 60000 2000 demo_client)) = []
   \<and> fst (fetchBackend ''https://backend/getMeetings?year=2026'' (Some ''meetings_2026'') 60000
             2000 cold_client) = Returned (JArr [JNum 1])
   \<and> requested (snd (fetchBackend ''https://backend/getMeetings?year=2026''
             (Some ''meetings_2026'') 60000 2000 cold_client)) = []
   \<and> fst (gets ''https://backend/getMeetings?year=2026'' (Some ''meetings_2026'') 60000
             ten_calls demo_client) = replicate 10 (Returned (JArr [JNum 1]))
   \<and> requested (snd (gets ''https://backend/getMeetings?year=2026'' (Some ''meetings_2026'')
             60000 ten_calls demo_client)) = [''https://backend/getMeetings?year=2026'']
   \<and> fst (gets ''https://backend/getMeetings?year=2026'' (Some ''meetings_2026'') 60000
             ten_calls cold_client) = replicate 10 (Returned (JArr [JNum 1]))
   \<and> requested (snd (gets ''https://backend/getMeetings?year=2026'' (Some ''meetings_2026'')
             60000 ten_calls cold_client)) = [''https://backend/getMeetings?year=2026'']"
proof -
  let ?e = "\<lparr>entry_data = JArr [JNum 1], timestamp = 1000\<rparr>"
  let ?url = "''https://backend/getMeetings?year=2026''"
  let ?rest = "[70001, 70002, 70003, 70004, 70005, 70006, 70007, 70008, 70009] :: int list"
  have key: "''meetings_2026'' = (case Some ''meetings_2026'' of
      None \<Rightarrow> ?url | Some k \<Rightarrow> if k = [] then ?url else k)"
    by simp
  have warm: "cache demo_client ''meetings_2026'' = Some ?e"
    and cold: "cache cold_client ''meetings_2026'' = None"
      "localStorage cold_client (CACHE_PREFIX @ ''meetings_2026'') = Some (Parses ?e)"
    and np: "''meetings_2026'' \<notin> pendingRefreshes demo_client"
      "''meetings_2026'' \<notin> pendingRefreshes cold_client"
    and rq: "requested demo_client = []" "requested cold_client = []"
    by (simp_all add: demo_client_def cold_client_def CACHE_PREFIX_def)
  have tc: "ten_calls = 70000 # ?rest"
    by (simp add: ten_calls_def)
  from warm have hw: "cache demo_client ''meetings_2026'' = Some ?e
     \<or> (cache demo_client ''meetings_2026'' = None
         \<and> localStorage demo_client (CACHE_PREFIX @ ''meetings_2026'') = Some (Parses ?e))"
    by simp
  from cold have hc: "cache cold_client ''meetings_2026'' = Some ?e
     \<or> (cache cold_client ''meetings_2026'' = None
         \<and> localStorage cold_client (CACHE_PREFIX @ ''meetings_2026'') = Some (Parses ?e))"
    by simp
  from fetchBackend_fresh_and_stale [OF key hw, of 2000 60000 "[]"] rq
  have f1: "fst (fetchBackend ?url (Some ''meetings_2026'') 60000 2000 demo_client)
        = Returned (JArr [JNum 1])"
    "requested (snd (fetchBackend ?url (Some ''meetings_2026'') 60000 2000 demo_client)) = []"
    by (simp_all del: gets.simps)
  from fetchBackend_fresh_and_stale [OF key hc, of 2000 60000 "[]"] rq
  have f2: "fst (fetchBackend ?url (Some ''meetings_2026'') 60000 2000 cold_client)
        = Returned (JArr [JNum 1])"
    "requested (snd (fetchBackend ?url (Some ''meetings_2026'') 60000 2000 cold_client)) = []"
    by (simp_all del: gets.simps)
  from fetchBackend_fresh_and_stale [OF key hw, of 70000 60000 ?rest] np rq
  have s1: "fst (gets ?url (Some ''meetings_2026'') 60000 ten_calls demo_client)
        = replicate 10 (Returned (JArr [JNum 1]))"
    "requested (snd (gets ?url (Some ''meetings_2026'') 60000 ten_calls demo_client)) = [?url]"
    unfolding tc by (simp_all del: gets.simps add: eval_nat_numeral)
  from fetchBackend_fresh_and_stale [OF key hc, of 70000 60000 ?rest] np rq
  have s2: "fst (gets ?url (Some ''meetings_2026'') 60000 ten_calls cold_client)
        = replicate 10 (Returned (JArr [JNum 1]))"
    "requested (snd (gets ?url (Some ''meetings_2026'') 60000 ten_calls cold_client)) = [?url]"
    unfolding tc by (simp_all del: gets.simps add: eval_nat_numeral)
  have misc: "(2000::int) - 1000 < 60000" "list_all (\<lambda>t. 60000 \<le> t - 1000) ten_calls"
    "length ten_calls = 10"
    by (simp_all add: ten_calls_def)
  from warm cold np misc f1 f2 s1 s2 show ?thesis
    by (intro conjI)
qed

subsection \<open>Scheduler\<close>

lemma cacheWrite_other: "k \<noteq> docId \<Longrightarrow> snd (cacheWrite h docId d st) k = st k"
  by (simp add: cacheWrite_def)

lemma write_all_other: "k \<notin> fst ` set ws \<Longrightarrow> snd (write_all h ws st) k = st k"
proof (induction ws arbitrary: st)
  case Nil
  then show ?case by simp
next
  case (Cons w ws)
  obtain docId d where w: "w = (docId, d)" by (cases w)
  from Cons.prems w have ne: "k \<noteq> docId" and rest: "k \<notin> fst ` set ws" by auto
  from Cons.IH [OF rest, of "snd (cacheWrite h docId d st)"] cacheWrite_other [OF ne, of h d st] w
  show ?case by (simp add: split_beta)
qed

lemma catch_log_normal: "fst (catch_log r) = Normal"
  by (cases r) (simp add: catch_log_def split: sum.splits)

lemma snd_catch_log: "snd (catch_log r) = snd r"
  by (cases r) (simp add: catch_log_def split: sum.splits)

lemma push_if_skipped:
  "(feed_key (key, r, True) = k \<longrightarrow> failed (key, r, True))
     \<Longrightarrow> k \<notin> fst ` set (push_if (or_null r) key)"
  by (cases r) (auto simp: push_if_def or_null_def failed_def feed_key_def)

lemma drivers_skipped:
  "(feed_key (k1, r, True) = k \<longrightarrow> failed (k1, r, True))
     \<Longrightarrow> (feed_key (k2, r, True) = k \<longrightarrow> failed (k2, r, True))
     \<Longrightarrow> k \<notin> fst ` set (if truthy (or_null r) then [(k1, or_null r), (k2, or_null r)] else [])"
  by (cases r) (auto simp: or_null_def failed_def feed_key_def)

lemma live_writes_skipped:
  assumes "\<forall>f \<in> set [(''positions_'' @ to_string h sessionKey, up_positions up, True),
            (''intervals_'' @ to_string h sessionKey, up_intervals up, True),
            (''stints_'' @ to_string h sessionKey, up_stints up, True),
            (''weather_'' @ to_string h sessionKey, up_weather up, True),
            (''race_control_'' @ to_string h sessionKey, up_raceControl up, True),
            (''drivers_'' @ to_string h sessionKey, up_drivers up, True),
            (''drivers_latest'', up_drivers up, True),
            (''laps_'' @ to_string h sessionKey @ ''_all'', up_laps up, True)].
          feed_key f = k \<longrightarrow> failed f"
  shows "k \<notin> fst ` set (live_writes h up sessionKey)"
proof -
  from assms have
    p: "feed_key (''positions_'' @ to_string h sessionKey, up_positions up, True) = k
          \<longrightarrow> failed (''positions_'' @ to_string h sessionKey, up_positions up, True)"
    and i: "feed_key (''intervals_'' @ to_string h sessionKey, up_intervals up, True) = k
          \<longrightarrow> failed (''intervals_'' @ to_string h sessionKey, up_intervals up, True)"
    and s: "feed_key (''stints_'' @ to_string h sessionKey, up_stints up, True) = k
          \<longrightarrow> failed (''stints_'' @ to_string h sessionKey, up_stints up, True)"
    and w: "feed_key (''weather_'' @ to_string h sessionKey, up_weather up, True) = k
          \<longrightarrow> failed (''weather_'' @ to_string h sessionKey, up_weather up, True)"
    and r: "feed_key (''race_control_'' @ to_string h sessionKey, up_raceControl up, True) = k
          \<longrightarrow> failed (''race_control_'' @ to_string h sessionKey, up_raceControl up, True)"
    and d1: "feed_key (''drivers_'' @ to_string h sessionKey, up_drivers up, True) = k
          \<longrightarrow> failed (''drivers_'' @ to_string h sessionKey, up_drivers up, True)"
    and d2: "feed_key (''drivers_latest'', up_drivers up, True) = k
          \<longrightarrow> failed (''drivers_latest'', up_drivers up, True)"
    and l: "feed_key (''laps_'' @ to_string h sessionKey @ ''_all'', up_laps up, True) = k
          \<longrightarrow> failed (''laps_'' @ to_string h sessionKey @ ''_all'', up_laps up, True)"
    by simp_all
  note skips = push_if_skipped [OF p] push_if_skipped [OF i] push_if_skipped [OF s]
    push_if_skipped [OF w] push_if_skipped [OF r] drivers_skipped [OF d1 d2]
    push_if_skipped [OF l]
  have "fst ` set (live_writes h up sessionKey) =
      fst ` set (push_if (or_null (up_positions up)) (''positions_'' @ to_string h sessionKey))
    \<union> fst ` set (push_if (or_null (up_intervals up)) (''intervals_'' @ to_string h sessionKey))
    \<union> fst ` set (push_if (or_null (up_stints up)) (''stints_'' @ to_string h sessionKey))
    \<union> fst ` set (push_if (or_null (up_weather up)) (''weather_'' @ to_string h sessionKey))
    \<union> fst ` set (push_if (or_null (up_raceControl up)) (''race_control_'' @ to_string h sessionKey))
    \<union> fst ` set (if truthy (or_null (up_drivers up))
          then [(''drivers_'' @ to_string h sessionKey, or_null (up_drivers up)),
                (''drivers_latest'', or_null (up_drivers up))] else [])
    \<union> fst ` set (push_if (or_null (up_laps up)) (''laps_'' @ to_string h sessionKey @ ''_all''))"
    unfolding live_writes_def Let_def set_append image_Un by (simp only: Un_assoc)
  with skips show ?thesis
    by (simp only: Un_iff) blast
qed

lemma cacheWrite_result:
  "cacheWrite h docId d st = (r, st1) \<Longrightarrow> k \<noteq> docId \<Longrightarrow> st1 k = st k"
  using cacheWrite_other [of k docId h d st] by simp

lemma live_frame:
  assumes "\<forall>f \<in> set (live_feeds h up). feed_key f = k \<longrightarrow> failed f"
  shows "snd (refreshLiveData_body h now up st) k = st k"
proof (cases "up_sessions up")
  case (Inl e)
  then show ?thesis by (simp add: refreshLiveData_body_def)
next
  case (Inr sessions)
  let ?sk = "get_prop (latest_of h sessions) ''session_key''"
  from assms Inr have ne: "k \<noteq> ''latest_session''"
    by (auto simp: live_feeds_def feed_key_def failed_def)
  from assms Inr have "k \<notin> fst ` set (live_writes h up ?sk)"
    by (intro live_writes_skipped) (simp add: live_feeds_def Let_def)
  note w = write_all_other [OF this]
  obtain r st1 where c: "cacheWrite h ''latest_session'' (latest_of h sessions) st = (r, st1)"
    by (cases "cacheWrite h ''latest_session'' (latest_of h sessions) st")
  from cacheWrite_result [OF c ne] have "st1 k = st k" .
  with Inr c w [of h st1] show ?thesis
    by (simp add: refreshLiveData_body_def Let_def split: sum.splits)
qed

lemma base_step_frame:
  assumes "feed_key (''drivers_'' @ to_string h sessionKey, r, True) = k
             \<longrightarrow> failed (''drivers_'' @ to_string h sessionKey, r, True)"
    and "feed_key (''drivers_latest'', r, True) = k \<longrightarrow> failed (''drivers_latest'', r, True)"
  shows "base_drivers_step h r sessionKey st k = st k"
proof (cases r)
  case (Inl e)
  then show ?thesis by (simp add: base_drivers_step_def)
next
  case (Inr drivers)
  show ?thesis
  proof (cases "truthy drivers")
    case False
    with Inr show ?thesis by (simp add: base_drivers_step_def)
  next
    case True
    with assms Inr have ne: "k \<noteq> ''drivers_'' @ to_string h sessionKey" "k \<noteq> ''drivers_latest''"
      by (auto simp: feed_key_def failed_def)
    obtain r1 st1 where c: "cacheWrite h (''drivers_'' @ to_string h sessionKey) drivers st = (r1, st1)"
      by (cases "cacheWrite h (''drivers_'' @ to_string h sessionKey) drivers st")
    from cacheWrite_result [OF c ne(1)] cacheWrite_other [OF ne(2), of h drivers st1] Inr True c
    show ?thesis
      by (simp add: base_drivers_step_def split: sum.splits)
  qed
qed

lemma base_frame:
  assumes "\<forall>f \<in> set (base_feeds h up). feed_key f = k \<longrightarrow> failed f"
  shows "snd (refreshBaseData_body h up st) k = st k"
proof (cases "base_sessions up")
  case (Inl e)
  then show ?thesis by (simp add: refreshBaseData_body_def)
next
  case (Inr sessions)
  let ?sk = "get_prop (latest_of h sessions) ''session_key''"
  from assms Inr have ne: "k \<noteq> ''latest_session''"
    by (auto simp: base_feeds_def feed_key_def failed_def)
  from assms Inr have d: "base_drivers_step h (base_drivers up) ?sk st1 k = st1 k" for st1
    by (intro base_step_frame) (simp_all add: base_feeds_def Let_def)
  obtain r st1 where c: "cacheWrite h ''latest_session'' (latest_of h sessions) st = (r, st1)"
    by (cases "cacheWrite h ''latest_session'' (latest_of h sessions) st")
  from cacheWrite_result [OF c ne] have "st1 k = st k" .
  with Inr c d [of st1] show ?thesis
    by (simp add: refreshBaseData_body_def Let_def split: sum.splits)
qed

lemma standings_frame:
  assumes "\<forall>f \<in> set (standings_feeds h year up). feed_key f = k \<longrightarrow> failed f"
  shows "snd (refreshStandings_body h year up st) k = st k"
proof (cases "fetchDriverStandings (jolpica_drivers up)")
  case (Inl e)
  then show ?thesis by (simp add: refreshStandings_body_def)
next
  case d: (Inr driverStandings)
  show ?thesis
  proof (cases "fetchConstructorStandings (jolpica_constructors up)")
    case (Inl e)
    with d show ?thesis by (simp add: refreshStandings_body_def)
  next
    case c: (Inr constructorStandings)
    from assms d c have "k \<notin> fst ` set
        [(''driver_standings_'' @ number_string h (of_int year), driverStandings),
         (''constructor_standings_'' @ number_string h (of_int year), constructorStandings)]"
      by (auto simp: standings_feeds_def feed_key_def failed_def)
    from write_all_other [OF this] d c show ?thesis
      by (simp add: refreshStandings_body_def)
  qed
qed

lemma cache_meeting_frame:
  assumes "\<not> nullish meeting \<Longrightarrow>
     feed_key (''sessions_'' @ to_string h (get_prop meeting ''meeting_key''), r, False) = k
     \<longrightarrow> failed (''sessions_'' @ to_string h (get_prop meeting ''meeting_key''), r, False)"
  shows "snd (cache_meeting h r meeting st) k = st k"
proof (cases "nullish meeting")
  case True
  then show ?thesis by (simp add: cache_meeting_def)
next
  case False
  show ?thesis
  proof (cases r)
    case (Inl e)
    with False show ?thesis by (simp add: cache_meeting_def)
  next
    case (Inr sessions)
    with assms [OF False]
    have "k \<noteq> ''sessions_'' @ to_string h (get_prop meeting ''meeting_key'')"
      by (auto simp: feed_key_def failed_def)
    from cacheWrite_other [OF this] Inr False show ?thesis
      by (simp add: cache_meeting_def)
  qed
qed

lemma cache_meeting_stops:
  "fst (cache_meeting h r meeting st) = (if nullish meeting then Inl TypeError else Inr ())"
  by (simp add: cache_meeting_def split: sum.splits)

lemma cache_meetings_frame:
  "\<forall>f \<in> set (meeting_feeds h ups i ms). feed_key f = k \<longrightarrow> failed f
     \<Longrightarrow> snd (cache_meetings h ups i ms st) k = st k"
proof (induction ms arbitrary: i st)
  case Nil
  then show ?case by simp
next
  case (Cons meeting ms)
  obtain r1 st1 where c: "cache_meeting h (ups i) meeting st = (r1, st1)"
    by (cases "cache_meeting h (ups i) meeting st")
  from Cons.prems have "snd (cache_meeting h (ups i) meeting st) k = st k"
    by (intro cache_meeting_frame) simp
  with c have one: "st1 k = st k" by simp
  show ?case
  proof (cases "nullish meeting")
    case True
    with c cache_meeting_stops [of h "ups i" meeting st] one show ?thesis
      by simp
  next
    case False
    with c cache_meeting_stops [of h "ups i" meeting st] have r1: "r1 = Inr ()"
      by simp
    from Cons.prems False
    have "\<forall>f \<in> set (meeting_feeds h ups (Suc i) ms). feed_key f = k \<longrightarrow> failed f"
      by simp
    from Cons.IH [OF this, of st1] c r1 one show ?thesis
      by simp
  qed
qed

lemma meetings_frame:
  assumes "\<forall>f \<in> set (meetings_feeds h year up). feed_key f = k \<longrightarrow> failed f"
  shows "snd (refreshMeetings_body h year up st) k = st k"
proof (cases "up_meetings up")
  case (Inl e)
  then show ?thesis by (simp add: refreshMeetings_body_def)
next
  case (Inr d)
  from assms Inr have ne: "k \<noteq> ''meetings_'' @ number_string h (of_int year)"
    by (auto simp: meetings_feeds_def feed_key_def failed_def)
  obtain r st1 where c: "cacheWrite h (''meetings_'' @ number_string h (of_int year)) d st = (r, st1)"
    by (cases "cacheWrite h (''meetings_'' @ number_string h (of_int year)) d st")
  from cacheWrite_result [OF c ne] have st1: "st1 k = st k" .
  show ?thesis
  proof (cases "iterate d")
    case None
    with Inr c st1 show ?thesis
      by (simp add: refreshMeetings_body_def split: sum.splits)
  next
    case (Some ms)
    with assms Inr
    have "\<forall>f \<in> set (meeting_feeds h (up_meeting_sessions up) 0 ms). feed_key f = k \<longrightarrow> failed f"
      by (simp add: meetings_feeds_def)
    from cache_meetings_frame [OF this, of st1] Some Inr c st1 show ?thesis
      by (simp add: refreshMeetings_body_def split: sum.splits)
  qed
qed

text \<open>
  C4, as stated, fails. The store holds the latest session; a run of \<open>refreshLiveData\<close> whose
  sessions call returns an empty list (no usable result) writes \<open>null\<close> over it:
  \<open>latest_session\<close> is written whenever the sessions call returns.
\<close>

theorem refreshLiveData_overwrites_latest_session:
  "stored ''latest_session'' = Some \<lparr>data = demo_session, updatedAt = 1772900000000\<rparr>
   \<and> up_sessions no_sessions = Inr (JArr [])
   \<and> refreshLiveData demo_host 1772943000000 no_sessions stored
       = (Normal, stored(''latest_session'' \<mapsto> \<lparr>data = JNull, updatedAt = 1772940000000\<rparr>))"
  by (simp add: refreshLiveData_def refreshLiveData_body_def catch_log_def cacheWrite_def
      latest_of_def stored_def no_sessions_def demo_host_def)

text \<open>
  C4, amended. Every job completes normally. In every job, a document is left as it was
  when every upstream call of the run that feeds it has failed: the call threw, or, for
  the live-data and drivers documents, which are written only \<open>if (data)\<close>, it returned a
  falsy value. (The \<open>latest_session\<close> document is fed by the sessions call and is not
  guarded: it is left alone only when that call throws.)
\<close>

theorem failed_refresh_keeps_entry:
  "fst (refreshLiveData h now lu st) = Normal
   \<and> fst (refreshBaseData h bu st) = Normal
   \<and> fst (refreshStandings h year su st) = Normal
   \<and> fst (refreshMeetings h year mu st) = Normal
   \<and> ((\<forall>f \<in> set (live_feeds h lu). feed_key f = k \<longrightarrow> failed f)
        \<longrightarrow> snd (refreshLiveData h now lu st) k = st k)
   \<and> ((\<forall>f \<in> set (base_feeds h bu). feed_key f = k \<longrightarrow> failed f)
        \<longrightarrow> snd (refreshBaseData h bu st) k = st k)
   \<and> ((\<forall>f \<in> set (standings_feeds h year su). feed_key f = k \<longrightarrow> failed f)
        \<longrightarrow> snd (refreshStandings h year su st) k = st k)
   \<and> ((\<forall>f \<in> set (meetings_feeds h year mu). feed_key f = k \<longrightarrow> failed f)
        \<longrightarrow> snd (refreshMeetings h year mu st) k = st k)"
  by (simp add: refreshLiveData_def refreshBaseData_def refreshStandings_def
      refreshMeetings_def catch_log_normal snd_catch_log
      live_frame base_frame standings_frame meetings_frame)

theorem failed_refresh_keeps_entry_witness:
  "filter (\<lambda>f. feed_key f = ''positions_9158'') (live_feeds demo_host positions_down)
     = [(''positions_9158'', Inl FetchRejected, True)]
   \<and> filter (\<lambda>f. feed_key f = ''latest_session'') (base_feeds demo_host base_down)
     = [(''latest_session'', Inl FetchRejected, False)]
   \<and> filter (\<lambda>f. feed_key f = ''driver_standings_2026'') (standings_feeds demo_host 2026 standings_down)
     = [(''driver_standings_2026'', Inl (UpstreamApiError 500), False)]
   \<and> filter (\<lambda>f. feed_key f = ''sessions_1279'')
        (meetings_feeds demo_host 2026 meetings_partial)
     = [(''sessions_1279'', Inl FetchRejected, False)]
   \<and> failed (''positions_9158'', Inl FetchRejected, True)
   \<and> failed (''latest_session'', Inl FetchRejected, False)
   \<and> failed (''driver_standings_2026'', Inl (UpstreamApiError 500), False)
   \<and> failed (''sessions_1279'', Inl FetchRejected, False)
   \<and> fst (refreshLiveData demo_host 1772943000000 positions_down stored) = Normal
   \<and> snd (refreshLiveData demo_host 1772943000000 positions_down stored) ''positions_9158''
       = Some \<lparr>data = JArr [JNum 44], updatedAt = 1772900000000\<rparr>
   \<and> snd (refreshLiveData demo_host 1772943000000 positions_down stored) ''intervals_9158''
       = Some \<lparr>data = JArr [JNum 1], updatedAt = 1772940000000\<rparr>
   \<and> snd (refreshBaseData demo_host base_down stored) ''latest_session''
       = Some \<lparr>data = demo_session, updatedAt = 1772900000000\<rparr>
   \<and> snd (refreshStandings demo_host 2026 standings_down stored) ''driver_standings_2026''
       = None
   \<and> snd (refreshMeetings demo_host 2026 meetings_partial stored) ''sessions_1279'' = None
   \<and> snd (refreshMeetings demo_host 2026 meetings_partial stored) ''meetings_2026''
       \<noteq> stored ''meetings_2026''
   \<and> snd (refreshMeetings demo_host 2026 meetings_partial stored) ''sessions_1280'' = None"
proof -
  have lf: "filter (\<lambda>f. feed_key f = ''positions_9158'') (live_feeds demo_host positions_down)
     = [(''positions_9158'', Inl FetchRejected, True)]"
    by (simp add: live_feeds_def positions_down_def latest_of_def demo_session_def
        feed_key_def show_int_def number_string_def Let_def)
  have bf: "filter (\<lambda>f. feed_key f = ''latest_session'') (base_feeds demo_host base_down)
     = [(''latest_session'', Inl FetchRejected, False)]"
    by (simp add: base_feeds_def base_down_def feed_key_def)
  have sf: "filter (\<lambda>f. feed_key f = ''driver_standings_2026'')
       (standings_feeds demo_host 2026 standings_down)
     = [(''driver_standings_2026'', Inl (UpstreamApiError 500), False)]"
    by (simp add: standings_feeds_def standings_down_def fetchDriverStandings_def
        feed_key_def show_int_def number_string_def)
  have mf: "filter (\<lambda>f. feed_key f = ''sessions_1279'')
        (meetings_feeds demo_host 2026 meetings_partial)
     = [(''sessions_1279'', Inl FetchRejected, False)]"
    by (simp add: meetings_feeds_def meetings_partial_def nullish_def feed_key_def show_int_def
        number_string_def)
  have fl: "failed (''positions_9158'', Inl FetchRejected, True)"
    "failed (''latest_session'', Inl FetchRejected, False)"
    "failed (''driver_standings_2026'', Inl (UpstreamApiError 500), False)"
    "failed (''sessions_1279'', Inl FetchRejected, False)"
    by (simp_all add: failed_def)
  have all: "(\<forall>f \<in> set fs. feed_key f = k \<longrightarrow> failed f)"
    if "filter (\<lambda>f. feed_key f = k) fs = [g]" and "failed g" for fs k g
  proof
    fix f assume "f \<in> set fs"
    show "feed_key f = k \<longrightarrow> failed f"
    proof
      assume "feed_key f = k"
      with \<open>f \<in> set fs\<close> have "f \<in> set (filter (\<lambda>f. feed_key f = k) fs)" by simp
      with that show "failed f" by simp
    qed
  qed
  note t = failed_refresh_keeps_entry
    [of demo_host 1772943000000 positions_down stored base_down 2026 standings_down
        meetings_partial]
  from t [of "''positions_9158''"] all [OF lf fl(1)]
  have a: "fst (refreshLiveData demo_host 1772943000000 positions_down stored) = Normal"
    "snd (refreshLiveData demo_host 1772943000000 positions_down stored) ''positions_9158''
       = stored ''positions_9158''"
    by blast+
  from t [of "''latest_session''"] all [OF bf fl(2)]
  have b: "snd (refreshBaseData demo_host base_down stored) ''latest_session''
       = stored ''latest_session''"
    by blast
  from t [of "''driver_standings_2026''"] all [OF sf fl(3)]
  have c: "snd (refreshStandings demo_host 2026 standings_down stored) ''driver_standings_2026''
       = stored ''driver_standings_2026''"
    by blast
  from t [of "''sessions_1279''"] all [OF mf fl(4)]
  have d: "snd (refreshMeetings demo_host 2026 meetings_partial stored) ''sessions_1279''
       = stored ''sessions_1279''"
    by blast
  have m: "snd (refreshMeetings demo_host 2026 meetings_partial stored) ''meetings_2026''
       \<noteq> stored ''meetings_2026''"
    "snd (refreshMeetings demo_host 2026 meetings_partial stored) ''sessions_1280'' = None"
    by (simp_all add: refreshMeetings_def refreshMeetings_body_def catch_log_def cacheWrite_def
        cache_meeting_def nullish_def meetings_partial_def demo_host_def stored_def
        show_int_def number_string_def)
  have st: "stored ''positions_9158'' = Some \<lparr>data = JArr [JNum 44], updatedAt = 1772900000000\<rparr>"
    "stored ''latest_session'' = Some \<lparr>data = demo_session, updatedAt = 1772900000000\<rparr>"
    "stored ''driver_standings_2026'' = None" "stored ''sessions_1279'' = None"
    by (simp_all add: stored_def)
  have w: "snd (refreshLiveData demo_host 1772943000000 positions_down stored) ''intervals_9158''
       = Some \<lparr>data = JArr [JNum 1], updatedAt = 1772940000000\<rparr>"
    by (simp add: refreshLiveData_def refreshLiveData_body_def catch_log_def cacheWrite_def
        latest_of_def isSessionInLiveWindow_def beforeStart_def afterEnd_def live_writes_def
        push_if_def or_null_def positions_down_def demo_session_def demo_host_def stored_def
        show_int_def number_string_def Let_def)
  from lf bf sf mf fl a w b c d m show ?thesis
    unfolding st by (intro conjI)
qed

subsection \<open>Read service\<close>

lemma docIdFn_required:
  "(e, p) \<in> set required_params \<Longrightarrow> param req p = None \<Longrightarrow> docIdFn y e req = None"
  by (auto simp: required_params_def keyed_def)

lemma docIdFn_nonempty: "docIdFn y e req = Some docId \<Longrightarrow> docId \<noteq> []"
  by (cases e) (auto simp: keyed_def Let_def split: option.splits)

lemma createEndpoint_admitted:
  assumes "fst (applyMiddleware req now ipHits) = None"
  shows "createEndpoint idFn h st now ipHits req =
     (case idFn req of
        None \<Rightarrow> \<lparr>sent = missing_parameters,
                  hits_after = snd (applyMiddleware req now ipHits), reads = []\<rparr>
      | Some docId \<Rightarrow>
          if docId = [] then
            \<lparr>sent = missing_parameters,
             hits_after = snd (applyMiddleware req now ipHits), reads = []\<rparr>
          else
            (case readCache h st docId of
               Inl e \<Rightarrow> \<lparr>sent = internal_error,
                         hits_after = snd (applyMiddleware req now ipHits), reads = [docId]\<rparr>
             | Inr d \<Rightarrow>
                 if d = JNull then
                   \<lparr>sent = \<lparr>code = 200, body = JArr []\<rparr>,
                    hits_after = snd (applyMiddleware req now ipHits), reads = [docId]\<rparr>
                 else
                   \<lparr>sent = \<lparr>code = 200, body = d\<rparr>,
                    hits_after = snd (applyMiddleware req now ipHits), reads = [docId]\<rparr>))"
proof -
  from assms obtain ipHits1 where eq: "applyMiddleware req now ipHits = (None, ipHits1)"
    by (cases "applyMiddleware req now ipHits") simp
  show ?thesis
    unfolding createEndpoint_def eq by (simp split: option.splits sum.splits)
qed



lemma admitted_null_reply:
  assumes "fst (applyMiddleware req now ipHits) = None" and "idFn req = Some docId"
    and "docId \<noteq> []" and "readCache h st docId = Inr JNull"
  shows "sent (createEndpoint idFn h st now ipHits req) = \<lparr>code = 200, body = JArr []\<rparr>
       \<and> reads (createEndpoint idFn h st now ipHits req) = [docId]"
  using assms(2-4) createEndpoint_admitted [OF assms(1), of idFn h st] by simp


text \<open>
  C8, as stated, fails: the handler runs the CORS and rate-limit middleware before it looks
  at the parameters. A preflight (\<open>OPTIONS\<close>) request to \<open>getSessions\<close> without
  \<open>meeting_key\<close> is answered 204, not 400.
\<close>

theorem preflight_without_parameter_gets_204:
  "(GetSessions, ''meeting_key'') \<in> set required_params
   \<and> param preflight ''meeting_key'' = None
   \<and> sent (serve 2026 GetSessions demo_host stored 1000 Map.empty preflight)
       = \<lparr>code = 204, body = JStr []\<rparr>"
  by (simp add: required_params_def param_def preflight_def serve_def createEndpoint_def
      applyMiddleware_def setCors_def)

text \<open>
  C8, amended. For every endpoint with a required identifying parameter, a request that the
  middleware lets through (not a preflight, within the rate limit of its address) and that
  lacks the parameter (absent or empty) is answered 400, and no document is read, whatever
  the store holds.
\<close>

theorem missing_parameter_400:
  assumes "(e, p) \<in> set required_params" and "param req p = None"
    and "fst (applyMiddleware req now ipHits) = None"
  shows "sent (serve y e h st now ipHits req) = missing_parameters
       \<and> code missing_parameters = 400
       \<and> reads (serve y e h st now ipHits req) = []"
  using docIdFn_required [OF assms(1,2), of y] createEndpoint_admitted [OF assms(3)]
  by (simp add: serve_def missing_parameters_def)

theorem missing_parameter_400_witness:
  "(GetSessions, ''meeting_key'') \<in> set required_params
   \<and> param plain_get ''meeting_key'' = None
   \<and> fst (applyMiddleware plain_get 1000 Map.empty) = None
   \<and> sent (serve 2026 GetSessions demo_host stored 1000 Map.empty plain_get)
       = \<lparr>code = 400, body = JObj [(''error'', JStr ''Missing required query parameters'')]\<rparr>
   \<and> reads (serve 2026 GetSessions demo_host stored 1000 Map.empty plain_get) = []"
proof -
  have a: "(GetSessions, ''meeting_key'') \<in> set required_params"
    by (simp add: required_params_def)
  have b: "param plain_get ''meeting_key'' = None"
    by (simp add: param_def plain_get_def)
  have c: "fst (applyMiddleware plain_get 1000 Map.empty) = None"
    by (simp add: applyMiddleware_def setCors_def checkRateLimit_def client_ip_def
        maxRequests_def plain_get_def Let_def)
  from missing_parameter_400 [OF a b c, of 2026 demo_host stored] a b c show ?thesis
    by (simp add: missing_parameters_def)
qed

text \<open>
  C9, as stated, fails: with an empty store, the sixty-first request of an address within
  one window is answered 429, an error status, although its cache key is valid.
\<close>

theorem over_limit_request_gets_429:
  "docIdFn 2026 GetMeetings get_2026 = Some ''meetings_2026''
   \<and> (Map.empty :: store) ''meetings_2026'' = None
   \<and> sent (serve 2026 GetMeetings demo_host Map.empty 1000 busy_hits get_2026)
       = \<lparr>code = 429,
          body = JObj [(''error'', JStr ''Too many requests''), (''retryAfterMs'', JNum 59000)]\<rparr>"
  by (simp add: year_of_def param_def get_2026_def serve_def createEndpoint_def
      applyMiddleware_def setCors_def checkRateLimit_def client_ip_def busy_hits_def
      maxRequests_def windowMs_def Let_def)

text \<open>
  C9, amended. For every endpoint and every request that the middleware lets through and
  whose cache key is constructed, if the store holds no document for the key and answers
  the read, the reply is 200 with the empty array, after exactly that one read.
\<close>

theorem absent_document_200_empty:
  assumes "docIdFn y e req = Some docId" and "st docId = None" and "store_reads h docId"
    and "fst (applyMiddleware req now ipHits) = None"
  shows "sent (serve y e h st now ipHits req) = \<lparr>code = 200, body = JArr []\<rparr>
       \<and> reads (serve y e h st now ipHits req) = [docId]"
proof -
  from assms(2,3) have "readCache h st docId = Inr JNull"
    by (simp add: readCache_def)
  from admitted_null_reply [of req now ipHits "docIdFn y e" docId h st]
    assms(1,4) docIdFn_nonempty [OF assms(1)] this
  show ?thesis by (simp add: serve_def)
qed

theorem absent_document_200_empty_witness:
  "docIdFn 2026 GetMeetings get_2026 = Some ''meetings_2026''
   \<and> (Map.empty :: store) ''meetings_2026'' = None
   \<and> store_reads demo_host ''meetings_2026''
   \<and> fst (applyMiddleware get_2026 1000 Map.empty) = None
   \<and> sent (serve 2026 GetMeetings demo_host Map.empty 1000 Map.empty get_2026)
       = \<lparr>code = 200, body = JArr []\<rparr>
   \<and> reads (serve 2026 GetMeetings demo_host Map.empty 1000 Map.empty get_2026)
       = [''meetings_2026'']"
proof -
  have a: "docIdFn 2026 GetMeetings get_2026 = Some ''meetings_2026''"
    by (simp add: year_of_def param_def get_2026_def)
  have b: "(Map.empty :: store) ''meetings_2026'' = None"
    by simp
  have c: "store_reads demo_host ''meetings_2026''"
    by (simp add: demo_host_def)
  have d: "fst (applyMiddleware get_2026 1000 Map.empty) = None"
    by (simp add: applyMiddleware_def setCors_def checkRateLimit_def client_ip_def
        maxRequests_def get_2026_def Let_def)
  from absent_document_200_empty [OF a b c d] a b c d show ?thesis
    by simp
qed




end
